theory Spec2Isabelle
  imports Complex_Main "HOL-Library.Word" "HOL-Library.Char_ord" "HOL-Library.List_Lexorder"
    "HOL-Library.Multiset"
begin

section \<open>JavaScript values used by the simulation worker\<close>

text \<open>
  A \<open>Uint8Array\<close> is a list of bytes. The numbers that the worker computes with
  (coordinates, widths, indices, neighbour counts) are integral in every call the
  application makes; they are modelled as \<open>int\<close>, and the one non-integral value
  that integer arithmetic can produce, \<open>NaN\<close> from \<open>a % 0\<close>, is \<open>None\<close>.
\<close>

type_synonym byte = "8 word"

text \<open>The remainder operator \<open>%\<close>: the result takes the sign of the dividend.\<close>

definition js_rem :: "int \<Rightarrow> int \<Rightarrow> int option" where
  "js_rem a b = (if b = 0 then None else Some (sgn a * (\<bar>a\<bar> mod \<bar>b\<bar>)))"

text \<open>\<open>ny * width + nx\<close> where either coordinate may be \<open>NaN\<close>.\<close>

definition cell_index :: "int option \<Rightarrow> int \<Rightarrow> int option \<Rightarrow> int option" where
  "cell_index ny width nx =
     (case ny of None \<Rightarrow> None
      | Some b \<Rightarrow> (case nx of None \<Rightarrow> None | Some a \<Rightarrow> Some (b * width + a)))"

text \<open>
  Reading \<open>cells[index]\<close>: an index outside the array (or \<open>NaN\<close>) reads
  \<open>undefined\<close>, here \<open>None\<close>.
\<close>

definition read_cell :: "byte list \<Rightarrow> int option \<Rightarrow> byte option" where
  "read_cell cells index =
     (case index of None \<Rightarrow> None
      | Some i \<Rightarrow> if 0 \<le> i \<and> i < int (length cells) then Some (cells ! nat i) else None)"

text \<open>Writing \<open>cells[index] = v\<close>: outside the array a typed array ignores the write.\<close>

definition write_cell :: "byte list \<Rightarrow> int option \<Rightarrow> byte \<Rightarrow> byte list" where
  "write_cell cells index v =
     (case index of None \<Rightarrow> cells
      | Some i \<Rightarrow> if 0 \<le> i \<and> i < int (length cells) then cells[nat i := v] else cells)"

datatype error = RangeError | InvalidRuleFormat

text \<open>
  \<open>new Uint8Array(n)\<close> for an integer \<open>n\<close>: zero filled. It throws \<open>RangeError\<close>
  for a negative length and for a length that the engine does not allocate. The largest
  length that the engine allocates, \<open>maxLength\<close>, differs between engines and is a
  parameter of the model; the language bounds it by \<open>2\<^sup>5\<^sup>3 - 1\<close>, and up to that
  bound the product \<open>width * height\<close> of two integers is computed exactly, while a
  larger product stays above it.
\<close>

definition new_Uint8Array :: "nat \<Rightarrow> int \<Rightarrow> error + byte list" where
  "new_Uint8Array maxLength n =
     (if n < 0 \<or> int maxLength < n then Inl RangeError else Inr (replicate (nat n) 0))"

record CellRule =
  birth :: "int list"
  survival :: "int list"

section \<open>The simulation worker\<close>

subsection \<open>countNeighbors\<close>

text \<open>
  The two \<open>for\<close> loops run \<open>dy\<close> and \<open>dx\<close> over \<open>-1, 0, 1\<close> with \<open>dy\<close>
  outermost; \<open>count\<close> is the loop state.
\<close>

definition countNeighbors :: "byte list \<Rightarrow> int \<Rightarrow> int \<Rightarrow> int \<Rightarrow> int \<Rightarrow> int" where
  "countNeighbors cells x y width height =
     fold (\<lambda>dy. fold (\<lambda>dx count.
         if dx = 0 \<and> dy = 0 then count
         else
           let nx = js_rem (x + dx + width) width;
               ny = js_rem (y + dy + height) height;
               index = cell_index ny width nx
           in if read_cell cells index = Some 1 then count + 1 else count)
       [-1, 0, 1]) [-1, 0, 1] 0"

subsection \<open>simulationStep\<close>

text \<open>The body of the inner loop: the value written to \<open>newState[index]\<close>.\<close>

definition newCell :: "byte list \<Rightarrow> int \<Rightarrow> int \<Rightarrow> CellRule \<Rightarrow> int \<Rightarrow> int \<Rightarrow> byte" where
  "newCell currentState width height rule x y =
     (let index = y * width + x;
          currentCell = read_cell currentState (Some index);
          neighbors = countNeighbors currentState x y width height
      in if currentCell = Some 1
         then (if neighbors \<in> set (survival rule) then 1 else 0)
         else (if neighbors \<in> set (birth rule) then 1 else 0))"

text \<open>
  \<open>newState\<close> is allocated with the length of \<open>currentState\<close>, a length that the
  engine has allocated for \<open>currentState\<close> itself, and threaded through both loops;
  \<open>[0..n - 1]\<close> is the run of \<open>for (let i = 0; i < n; i++)\<close>.
\<close>

definition simulationStep :: "byte list \<Rightarrow> int \<Rightarrow> int \<Rightarrow> CellRule \<Rightarrow> byte list" where
  "simulationStep currentState width height rule =
     fold (\<lambda>y. fold (\<lambda>x newState.
         write_cell newState (Some (y * width + x)) (newCell currentState width height rule x y))
       [0..width - 1]) [0..height - 1] (replicate (length currentState) 0)"

subsection \<open>createInitialGrid\<close>

text \<open>
  A position is the pair \<open>(x, y)\<close>; the optional pattern is an \<open>option\<close>. The
  allocation \<open>new Uint8Array(width * height)\<close> is the only statement that can throw;
  \<open>maxLength\<close> is the engine's limit.
\<close>

definition createInitialGrid ::
  "nat \<Rightarrow> int \<Rightarrow> int \<Rightarrow> (int \<times> int) list option \<Rightarrow> error + byte list" where
  "createInitialGrid maxLength width height initialPattern =
     (case new_Uint8Array maxLength (width * height) of
        Inl e \<Rightarrow> Inl e
      | Inr cells \<Rightarrow>
          (case initialPattern of
             None \<Rightarrow> Inr cells
           | Some pattern \<Rightarrow>
               Inr (fold (\<lambda>pos cells.
                     let x = js_rem (fst pos + width) width;
                         y = js_rem (snd pos + height) height;
                         index = cell_index y width x
                     in write_cell cells index 1) pattern cells)))"


section \<open>The rule parser\<close>

text \<open>
  Strings are lists of characters, and the model covers ASCII strings: the white space
  that \<open>trim\<close> strips is TAB, LF, VT, FF, CR and SPACE, and \<open>toUpperCase\<close> maps
  the letters \<open>a\<close> to \<open>z\<close> to \<open>A\<close> to \<open>Z\<close> and leaves every other character.
\<close>

definition isWhiteSpace :: "char \<Rightarrow> bool" where
  "isWhiteSpace c = (of_char c \<in> {9, 10, 11, 12, 13, 32 :: nat})"

definition trim :: "string \<Rightarrow> string" where
  "trim s = rev (dropWhile isWhiteSpace (rev (dropWhile isWhiteSpace s)))"

definition toUpperCase :: "string \<Rightarrow> string" where
  "toUpperCase s =
     map (\<lambda>c. if 97 \<le> (of_char c :: nat) \<and> (of_char c :: nat) \<le> 122
              then char_of (of_char c - 32 :: nat) else c) s"

text \<open>The class \<open>\d\<close> of a regular expression: the characters \<open>0\<close> to \<open>9\<close>.\<close>

definition isDigit :: "char \<Rightarrow> bool" where
  "isDigit c = (48 \<le> (of_char c :: nat) \<and> (of_char c :: nat) \<le> 57)"

text \<open>
  \<open>trimmed.match(/^B(\d+)\/S(\d+)$/)\<close>: the two capture groups, or \<open>None\<close> for
  \<open>null\<close>. The first group is greedy and is followed by \<open>/\<close>, which is no digit, so
  it is the longest run of digits after \<open>B\<close>; \<open>$\<close> is the end of the input.
\<close>

definition match_rule :: "string \<Rightarrow> (string \<times> string) option" where
  "match_rule s =
     (case s of
        [] \<Rightarrow> None
      | c # rest \<Rightarrow>
          if c \<noteq> CHR ''B'' then None
          else
            let g1 = takeWhile isDigit rest; rest1 = dropWhile isDigit rest
            in if g1 = [] then None
               else (case rest1 of
                       c1 # c2 # g2 \<Rightarrow>
                         if c1 = CHR ''/'' \<and> c2 = CHR ''S'' \<and> g2 \<noteq> [] \<and> list_all isDigit g2
                         then Some (g1, g2) else None
                     | _ \<Rightarrow> None))"

text \<open>\<open>Number\<close> on a one-digit string.\<close>

definition Number :: "char \<Rightarrow> int" where
  "Number c = int (of_char c) - 48"

definition parseRuleString :: "string \<Rightarrow> error + CellRule" where
  "parseRuleString ruleString =
     (let trimmed = toUpperCase (trim ruleString)
      in case match_rule trimmed of
           None \<Rightarrow> Inl InvalidRuleFormat
         | Some m \<Rightarrow>
             let birthDigits = map Number (fst m);
                 survivalDigits = map Number (snd m)
             in Inr \<lparr>birth = birthDigits, survival = survivalDigits\<rparr>)"

text \<open>
  The decimal string of an integer, as \<open>String(n)\<close> and \<open>join\<close> produce it for the
  integers below \<open>10\<^sup>2\<^sup>1\<close> in absolute value.
\<close>

fun digits10 :: "nat \<Rightarrow> string" where
  "digits10 n =
     (if n < 10 then [char_of (48 + n)] else digits10 (n div 10) @ [char_of (48 + n mod 10)])"

definition toString :: "int \<Rightarrow> string" where
  "toString i = (if i < 0 then CHR ''-'' # digits10 (nat (- i)) else digits10 (nat i))"

text \<open>
  \<open>Array.prototype.sort\<close> without a comparator orders the elements by their strings,
  compared code unit by code unit, and is stable. It sorts the array in place: the
  model returns the new contents of the array.
\<close>

definition js_sort :: "int list \<Rightarrow> int list" where
  "js_sort xs = sort_key toString xs"

definition join :: "int list \<Rightarrow> string" where
  "join xs = concat (map toString xs)"

text \<open>
  \<open>formatRuleString\<close> returns the string; the second component is the rule object
  after the call, whose two arrays \<open>sort\<close> has overwritten.
\<close>

definition formatRuleString :: "CellRule \<Rightarrow> string \<times> CellRule" where
  "formatRuleString rule =
     (let sortedBirth = js_sort (birth rule);
          rule1 = rule\<lparr>birth := sortedBirth\<rparr>;
          birthStr = join sortedBirth;
          sortedSurvival = js_sort (survival rule1);
          rule2 = rule1\<lparr>survival := sortedSurvival\<rparr>;
          survivalStr = join sortedSurvival
      in (''B'' @ birthStr @ ''/S'' @ survivalStr, rule2))"

section \<open>The controller hook\<close>

text \<open>
  The state of \<open>useSimulation\<close>: the two React states, the refs, and the messages
  that have been posted to the worker and whose answer the hook has not yet seen,
  oldest first. The worker handles its messages one at a time in the order of receipt,
  and what it answers depends on the message alone, so handling a message and
  delivering its answer are one event of the model. Of the configuration, the fields
  that the stepping protocol reads are kept. Times are real numbers of milliseconds.
  \<open>workerRef\<close> says whether the ref holds a worker.
\<close>

record GridState =
  width :: int
  height :: int
  cells :: "byte list"

record SimulationConfig =
  rule :: CellRule
  speed :: real
  isRunning :: bool

datatype WorkerMessage =
    SIMULATION_STEP "byte list" int int CellRule
  | INIT_GRID int int "(int \<times> int) list option"
  | UPDATE_RULE CellRule

datatype WorkerResponse =
    SIMULATION_RESULT "byte list"
  | GRID_INITIALIZED "byte list"
  | RULE_UPDATED CellRule

record controller =
  config :: SimulationConfig
  gridState :: GridState
  workerRef :: bool
  lastStepTimeRef :: real
  isProcessingRef :: bool
  posted :: "WorkerMessage list"

text \<open>
  The worker's message listener, in an engine that allocates up to \<open>maxLength\<close>
  bytes. An exception that escapes it (the allocation in \<open>createInitialGrid\<close>) reaches
  the hook as an error event.
\<close>

definition worker_listener :: "nat \<Rightarrow> WorkerMessage \<Rightarrow> error + WorkerResponse" where
  "worker_listener maxLength m =
     (case m of
        SIMULATION_STEP currentState w h r \<Rightarrow> Inr (SIMULATION_RESULT (simulationStep currentState w h r))
      | INIT_GRID w h initialPattern \<Rightarrow>
          (case createInitialGrid maxLength w h initialPattern of
             Inl e \<Rightarrow> Inl e
           | Inr initialState \<Rightarrow> Inr (GRID_INITIALIZED initialState))
      | UPDATE_RULE r \<Rightarrow> Inr (RULE_UPDATED r))"

definition DEFAULT_CONFIG :: SimulationConfig where
  "DEFAULT_CONFIG = \<lparr>rule = \<lparr>birth = [3], survival = [2, 3]\<rparr>, speed = 100, isRunning = False\<rparr>"

text \<open>
  The state after mounting, for a grid of side \<open>n\<close> (\<open>DEFAULT_GRID_SIZE\<close>, 200 in
  the source): the flag says whether the \<open>Worker\<close> constructor succeeded, in which
  case the first \<open>INIT_GRID\<close> has been posted. When the engine does not allocate the
  \<open>n * n\<close> initial cells, the first render throws and the hook never mounts: no
  worker is created and no callback exists. The model keeps this case as a state
  without cells and without a worker.
\<close>

definition mounted :: "nat \<Rightarrow> int \<Rightarrow> bool \<Rightarrow> controller" where
  "mounted maxLength n worker_ok =
     (case new_Uint8Array maxLength (n * n) of
        Inl e \<Rightarrow>
          \<lparr>config = DEFAULT_CONFIG,
           gridState = \<lparr>width = n, height = n, cells = []\<rparr>,
           workerRef = False,
           lastStepTimeRef = 0,
           isProcessingRef = False,
           posted = []\<rparr>
      | Inr initialCells \<Rightarrow>
          \<lparr>config = DEFAULT_CONFIG,
           gridState = \<lparr>width = n, height = n, cells = initialCells\<rparr>,
           workerRef = worker_ok,
           lastStepTimeRef = 0,
           isProcessingRef = False,
           posted = (if worker_ok
                     then [INIT_GRID n n (Some [(10, 10), (11, 10), (12, 10), (12, 11), (11, 12)])]
                     else [])\<rparr>)"

definition onmessage :: "WorkerResponse \<Rightarrow> controller \<Rightarrow> controller" where
  "onmessage r s =
     (case r of
        SIMULATION_RESULT newState \<Rightarrow>
          s\<lparr>gridState := (gridState s)\<lparr>cells := newState\<rparr>, isProcessingRef := False\<rparr>
      | GRID_INITIALIZED initialState \<Rightarrow>
          s\<lparr>gridState := (gridState s)\<lparr>cells := initialState\<rparr>\<rparr>
      | RULE_UPDATED _ \<Rightarrow> s)"

definition onerror :: "controller \<Rightarrow> controller" where
  "onerror s = s\<lparr>isProcessingRef := False\<rparr>"

text \<open>
  A callback of the hook is a closure of the render that created it. It reads
  \<open>gridState\<close> and \<open>config\<close> as that render had them, here the arguments \<open>g\<close> and
  \<open>cfg\<close>, which may be older than the state \<open>s\<close> in which it is called; the refs
  and the functional updates \<open>setState(prev => ...)\<close> read the state \<open>s\<close>.
\<close>

text \<open>
  The \<open>SIMULATION_STEP\<close> message that both \<open>stepSimulation\<close> and \<open>step\<close> build: a
  copy of the captured cells with the dimensions and the captured rule.
\<close>

definition stepMessage :: "GridState \<Rightarrow> SimulationConfig \<Rightarrow> WorkerMessage" where
  "stepMessage g cfg = SIMULATION_STEP (cells g) (width g) (height g) (rule cfg)"

text \<open>
  \<open>timeSinceLastStep >= 1000 / config.speed\<close>: at speed 0 the interval is
  \<open>Infinity\<close>, which no elapsed time reaches.
\<close>

definition intervalElapsed :: "real \<Rightarrow> real \<Rightarrow> bool" where
  "intervalElapsed timeSinceLastStep sp = (sp \<noteq> 0 \<and> timeSinceLastStep \<ge> 1000 / sp)"

text \<open>
  One run of the animation callback at time \<open>now\<close>. \<open>post_ok\<close> says whether the
  statements of the \<open>try\<close> block (the copy of the captured cells and
  \<open>postMessage\<close>) return; when one throws, the \<open>catch\<close> block clears the flag and
  nothing has been posted.
\<close>

definition stepSimulation ::
  "real \<Rightarrow> bool \<Rightarrow> GridState \<Rightarrow> SimulationConfig \<Rightarrow> controller \<Rightarrow> controller" where
  "stepSimulation now post_ok g cfg s =
     (if \<not> workerRef s \<or> \<not> isRunning cfg \<or> isProcessingRef s then s
      else
        let timeSinceLastStep = now - lastStepTimeRef s
        in if intervalElapsed timeSinceLastStep (speed cfg)
           then (if post_ok
                 then s\<lparr>isProcessingRef := True, posted := posted s @ [stepMessage g cfg],
                        lastStepTimeRef := now\<rparr>
                 else s\<lparr>isProcessingRef := False\<rparr>)
           else s)"

definition step :: "bool \<Rightarrow> GridState \<Rightarrow> SimulationConfig \<Rightarrow> controller \<Rightarrow> controller" where
  "step post_ok g cfg s =
     (if \<not> workerRef s \<or> isProcessingRef s then s
      else if post_ok
           then s\<lparr>isProcessingRef := True, posted := posted s @ [stepMessage g cfg]\<rparr>
           else s\<lparr>isProcessingRef := False\<rparr>)"

definition reset :: "bool \<Rightarrow> GridState \<Rightarrow> controller \<Rightarrow> controller" where
  "reset post_ok g s =
     (if \<not> workerRef s then s
      else if post_ok
           then s\<lparr>posted := posted s @ [INIT_GRID (width g) (height g) None]\<rparr>
           else s)"

definition updateRule :: "CellRule \<Rightarrow> bool \<Rightarrow> controller \<Rightarrow> controller" where
  "updateRule r post_ok s =
     (let s1 = s\<lparr>config := (config s)\<lparr>rule := r\<rparr>\<rparr>
      in if workerRef s1 \<and> post_ok then s1\<lparr>posted := posted s1 @ [UPDATE_RULE r]\<rparr> else s1)"

definition togglePlayPause :: "controller \<Rightarrow> controller" where
  "togglePlayPause s = s\<lparr>config := (config s)\<lparr>isRunning := \<not> isRunning (config s)\<rparr>\<rparr>"

definition updateSpeed :: "real \<Rightarrow> controller \<Rightarrow> controller" where
  "updateSpeed sp s = s\<lparr>config := (config s)\<lparr>speed := sp\<rparr>\<rparr>"

text \<open>
  \<open>toggleCell\<close>: the index and the copy \<open>newCells\<close> are taken from the captured grid
  \<open>g\<close> (the copy has the length of an array that exists); the updater
  \<open>prev => ({...prev, cells: newCells})\<close> keeps the other fields of the grid state
  \<open>prev\<close> that it replaces and drops the cells of \<open>prev\<close>.
\<close>

definition toggleCell :: "int \<Rightarrow> int \<Rightarrow> GridState \<Rightarrow> GridState \<Rightarrow> GridState" where
  "toggleCell x y g prev =
     (let index = y * width g + x;
          newCells = cells g
      in prev\<lparr>cells := write_cell newCells (Some index)
                          (if read_cell newCells (Some index) = Some 1 then 0 else 1)\<rparr>)"

subsection \<open>The canvas\<close>

text \<open>
  \<open>getGridCoords\<close>: \<open>canvas\<close> says whether \<open>canvasRef.current\<close> holds the canvas;
  \<open>gridX\<close> and \<open>gridY\<close> are the floors that the function computes from the position
  of the event, the pan and the zoom, integers for the zoom that \<open>updateZoom\<close> keeps
  between 0.1 and 15. It returns \<open>null\<close>, here \<open>None\<close>, without a canvas and
  outside the grid \<open>g\<close> that the render of the handler has captured.
\<close>

definition getGridCoords :: "bool \<Rightarrow> GridState \<Rightarrow> int \<Rightarrow> int \<Rightarrow> (int \<times> int) option" where
  "getGridCoords canvas g gridX gridY =
     (if \<not> canvas then None
      else if gridX \<ge> 0 \<and> gridX < width g \<and> gridY \<ge> 0 \<and> gridY < height g
      then Some (gridX, gridY) else None)"

text \<open>
  The state of the canvas that its mouse handlers read and set, and the fields of a
  mouse event that they read. A handler reads \<open>isDrawing\<close> and \<open>drawMode\<close> as its
  render has captured them, here in \<open>c\<close>, and sets them to constants. It returns the
  new state and the call of \<open>onCellClick\<close> that it makes, if any:
  \<open>if (coords) onCellClick(coords.gridX, coords.gridY)\<close>. The application passes
  \<open>toggleCell\<close> as \<open>onCellClick\<close>.
\<close>

record CanvasState =
  isDrawing :: bool
  drawMode :: bool
  isDraggingRef :: bool

record MouseEvent =
  button :: int
  ctrlKey :: bool
  altKey :: bool
  metaKey :: bool
  shiftKey :: bool

definition handleMouseDown ::
  "bool \<Rightarrow> GridState \<Rightarrow> MouseEvent \<Rightarrow> int \<Rightarrow> int \<Rightarrow> CanvasState \<Rightarrow>
   CanvasState \<times> (int \<times> int) option" where
  "handleMouseDown canvas g e gridX gridY c =
     (if button e = 0 \<and> \<not> ctrlKey e \<and> \<not> altKey e \<and> \<not> metaKey e \<and> \<not> shiftKey e
      then (c\<lparr>isDrawing := True, drawMode := True\<rparr>, getGridCoords canvas g gridX gridY)
      else if button e = 2 \<or> button e = 1 \<or> ctrlKey e \<or> altKey e \<or> metaKey e \<or> shiftKey e
      then (c\<lparr>isDraggingRef := True, drawMode := False\<rparr>, None)
      else (c, None))"

definition handleMouseMove ::
  "bool \<Rightarrow> GridState \<Rightarrow> int \<Rightarrow> int \<Rightarrow> CanvasState \<Rightarrow> CanvasState \<times> (int \<times> int) option" where
  "handleMouseMove canvas g gridX gridY c =
     (if drawMode c \<and> isDrawing c then (c, getGridCoords canvas g gridX gridY) else (c, None))"

definition handleMouseUp :: "CanvasState \<Rightarrow> CanvasState" where
  "handleMouseUp c = c\<lparr>isDrawing := False, isDraggingRef := False\<rparr>"

definition handleClick ::
  "bool \<Rightarrow> GridState \<Rightarrow> int \<Rightarrow> int \<Rightarrow> CanvasState \<Rightarrow> CanvasState \<times> (int \<times> int) option" where
  "handleClick canvas g gridX gridY c =
     (if \<not> isDrawing c \<and> drawMode c then (c, getGridCoords canvas g gridX gridY) else (c, None))"

subsection \<open>The hook as a state machine\<close>

text \<open>
  The events of the hook. An event that calls a callback carries what the render of
  that callback had captured: the cells, and for the two stepping callbacks the
  configuration. The width and the height of the grid state are never assigned after
  mounting, so the captured grid state has those of the current one.
  \<open>WorkerDone\<close>: the worker handles the oldest posted message and the hook receives
  its answer, or its error event when the listener threw. \<open>WorkerFailed\<close>: the
  computation of the oldest message, a step request, fails in the worker (a rule object
  that is no pair of arrays), and the hook receives the error event. Handling
  \<open>INIT_GRID\<close> or \<open>UPDATE_RULE\<close> throws only as \<open>worker_listener\<close> says, so an
  error event is the failure of the message that is being handled. An event that is not
  enabled leaves the state as it is.
\<close>

datatype event =
    Frame real bool "byte list" SimulationConfig
  | Step bool "byte list" SimulationConfig
  | Reset bool
  | UpdateRule CellRule bool
  | TogglePlayPause
  | UpdateSpeed real
  | ToggleCell int int "byte list"
  | WorkerDone
  | WorkerFailed

definition captured :: "controller \<Rightarrow> byte list \<Rightarrow> GridState" where
  "captured s capturedCells = (gridState s)\<lparr>cells := capturedCells\<rparr>"

fun fire :: "nat \<Rightarrow> controller \<Rightarrow> event \<Rightarrow> controller" where
  "fire maxLength s (Frame now post_ok capturedCells cfg) =
     stepSimulation now post_ok (captured s capturedCells) cfg s"
| "fire maxLength s (Step post_ok capturedCells cfg) = step post_ok (captured s capturedCells) cfg s"
| "fire maxLength s (Reset post_ok) = reset post_ok (gridState s) s"
| "fire maxLength s (UpdateRule r post_ok) = updateRule r post_ok s"
| "fire maxLength s TogglePlayPause = togglePlayPause s"
| "fire maxLength s (UpdateSpeed sp) = updateSpeed sp s"
| "fire maxLength s (ToggleCell x y capturedCells) =
     s\<lparr>gridState := toggleCell x y (captured s capturedCells) (gridState s)\<rparr>"
| "fire maxLength s WorkerDone =
     (case posted s of
        [] \<Rightarrow> s
      | m # ms \<Rightarrow>
          (case worker_listener maxLength m of
             Inl e \<Rightarrow> onerror (s\<lparr>posted := ms\<rparr>)
           | Inr r \<Rightarrow> onmessage r (s\<lparr>posted := ms\<rparr>)))"
| "fire maxLength s WorkerFailed =
     (case posted s of
        SIMULATION_STEP currentState w h r # ms \<Rightarrow> onerror (s\<lparr>posted := ms\<rparr>)
      | _ \<Rightarrow> s)"

definition run :: "nat \<Rightarrow> controller \<Rightarrow> event list \<Rightarrow> controller" where
  "run maxLength s evs = foldl (fire maxLength) s evs"

text \<open>The step requests that have been issued and whose outcome the hook has not seen.\<close>

fun isStepRequest :: "WorkerMessage \<Rightarrow> bool" where
  "isStepRequest (SIMULATION_STEP currentState w h r) = True"
| "isStepRequest (INIT_GRID w h initialPattern) = False"
| "isStepRequest (UPDATE_RULE r) = False"

definition outstanding :: "controller \<Rightarrow> nat" where
  "outstanding s = length (filter isStepRequest (posted s))"

text \<open>
  What the stepping protocol maintains: the in-flight flag is set exactly when one step
  request is outstanding, no posted message makes the worker's listener throw, and a
  hook with a worker has a grid that the engine allocates.
\<close>

definition answered :: "nat \<Rightarrow> WorkerMessage \<Rightarrow> bool" where
  "answered maxLength m = (\<not> isl (worker_listener maxLength m))"

definition allocated :: "nat \<Rightarrow> GridState \<Rightarrow> bool" where
  "allocated maxLength g = (0 \<le> width g * height g \<and> width g * height g \<le> int maxLength)"

definition protocol_inv :: "nat \<Rightarrow> controller \<Rightarrow> bool" where
  "protocol_inv maxLength s =
     (outstanding s = (if isProcessingRef s then 1 else 0) \<and>
      list_all (answered maxLength) (posted s) \<and>
      (workerRef s \<longrightarrow> allocated maxLength (gridState s)))"

section \<open>Notions of the specification\<close>

text \<open>
  The eight offsets \<open>(dx, dy)\<close> of a neighbour, and the neighbours of a cell on the
  torus, wrapped with the mathematical modulo (\<open>mod\<close> on \<open>int\<close> is never negative
  for a positive modulus).
\<close>

definition neighbourOffsets :: "(int \<times> int) list" where
  "neighbourOffsets = [(-1, -1), (0, -1), (1, -1), (-1, 0), (1, 0), (-1, 1), (0, 1), (1, 1)]"

definition wrappedNeighbours :: "int \<Rightarrow> int \<Rightarrow> int \<Rightarrow> int \<Rightarrow> (int \<times> int) list" where
  "wrappedNeighbours w h x y = map (\<lambda>d. ((x + fst d) mod w, (y + snd d) mod h)) neighbourOffsets"

definition isLive :: "byte list \<Rightarrow> int \<Rightarrow> int \<times> int \<Rightarrow> bool" where
  "isLive cs w p = (read_cell cs (Some (snd p * w + fst p)) = Some 1)"

text \<open>The live cells of a buffer, as coordinates, and a set of cells moved on the torus.\<close>

definition liveCells :: "byte list \<Rightarrow> int \<Rightarrow> int \<Rightarrow> (int \<times> int) list" where
  "liveCells cs w h = filter (isLive cs w) (map (\<lambda>p. (snd p, fst p)) (List.product [0..h - 1] [0..w - 1]))"

definition translate :: "int \<Rightarrow> int \<Rightarrow> int \<Rightarrow> int \<Rightarrow> (int \<times> int) list \<Rightarrow> (int \<times> int) list" where
  "translate dx dy w h ps = map (\<lambda>p. ((fst p + dx) mod w, (snd p + dy) mod h)) ps"

primrec generations :: "nat \<Rightarrow> byte list \<Rightarrow> int \<Rightarrow> int \<Rightarrow> CellRule \<Rightarrow> byte list" where
  "generations 0 cs w h r = cs"
| "generations (Suc n) cs w h r = generations n (simulationStep cs w h r) w h r"

definition glider :: "(int \<times> int) list" where
  "glider = [(1, 1), (2, 1), (3, 1), (3, 2), (2, 3)]"

definition life :: CellRule where
  "life = \<lparr>birth = [3], survival = [2, 3]\<rparr>"

text \<open>The positions of an optional pattern.\<close>

definition positions :: "(int \<times> int) list option \<Rightarrow> (int \<times> int) list" where
  "positions initialPattern = (case initialPattern of None \<Rightarrow> [] | Some ps \<Rightarrow> ps)"

section \<open>Neighbour counting\<close>

lemma js_rem_nonneg: "0 \<le> a \<Longrightarrow> 0 < b \<Longrightarrow> js_rem a b = Some (a mod b)"
  by (cases "a = 0") (simp_all add: js_rem_def)

lemma fold_count: "fold (\<lambda>p c. if P p then c + 1 else c) ps (c0::int) = c0 + int (length (filter P ps))"
  by (induction ps arbitrary: c0) simp_all

lemma countNeighbors_wrapped:
  assumes "0 < w" "0 < h" "0 \<le> x" "x < w" "0 \<le> y" "y < h"
  shows "countNeighbors cs x y w h =
         int (length (filter (isLive cs w) (wrappedNeighbours w h x y)))"
proof -
  have rx: "js_rem (x + d + w) w = Some ((x + d) mod w)" if "d \<in> {-1, 0, 1}" for d
    using that assms js_rem_nonneg [of "x + d + w" w] by auto
  have ry: "js_rem (y + d + h) h = Some ((y + d) mod h)" if "d \<in> {-1, 0, 1}" for d
    using that assms js_rem_nonneg [of "y + d + h" h] by auto
  have "countNeighbors cs x y w h =
        fold (\<lambda>p c. if isLive cs w p then c + 1 else c) (wrappedNeighbours w h x y) 0"
    using rx [of "-1"] rx [of 0] rx [of 1] ry [of "-1"] ry [of 0] ry [of 1]
    by (simp add: countNeighbors_def wrappedNeighbours_def neighbourOffsets_def isLive_def
        cell_index_def Let_def)
  then show ?thesis by (simp add: fold_count)
qed

lemma self_not_neighbour:
  assumes "2 \<le> w" "2 \<le> h" "0 \<le> x" "x < w" "0 \<le> y" "y < h"
  shows "(x, y) \<notin> set (wrappedNeighbours w h x y)"
proof -
  have xp: "(x + 1) mod w \<noteq> x"
  proof (cases "x + 1 < w")
    case True
    then show ?thesis using assms by simp
  next
    case False
    then have "x + 1 = w" using assms by simp
    then show ?thesis using assms by (simp del: mod_self)
  qed
  have xm: "(x - 1) mod w \<noteq> x"
  proof (cases "x = 0")
    case True
    have "(- 1) mod w = w - 1" using assms by (simp add: zmod_minus1)
    then show ?thesis using True assms by simp
  next
    case False
    then show ?thesis using assms by simp
  qed
  have yp: "(y + 1) mod h \<noteq> y"
  proof (cases "y + 1 < h")
    case True
    then show ?thesis using assms by simp
  next
    case False
    then have "y + 1 = h" using assms by simp
    then show ?thesis using assms by simp
  qed
  have ym: "(y - 1) mod h \<noteq> y"
  proof (cases "y = 0")
    case True
    have "(- 1) mod h = h - 1" using assms by (simp add: zmod_minus1)
    then show ?thesis using True assms by simp
  next
    case False
    then show ?thesis using assms by simp
  qed
  show ?thesis
    using xp xm yp ym by (simp add: wrappedNeighbours_def neighbourOffsets_def)
qed


section \<open>One generation\<close>

text \<open>
  The two nested loops write each index \<open>y * w + x\<close> once; as a single loop over the
  pairs \<open>(y, x)\<close> the writes are independent of each other.
\<close>

lemma fold_product:
  "fold (\<lambda>y. fold (\<lambda>x. F x y) xs) ys = fold (\<lambda>p. F (snd p) (fst p)) (List.product ys xs)"
  by (induction ys) (simp_all add: fold_map comp_def)

lemma length_fold_write:
  "length (fold (\<lambda>k st. write_cell st (Some (g k)) (h k)) ks st) = length st"
  by (induction ks arbitrary: st) (simp_all add: write_cell_def)

lemma fold_write_other:
  "\<forall>k \<in> set ks. g k \<noteq> int i \<Longrightarrow>
   fold (\<lambda>k st. write_cell st (Some (g k)) (h k)) ks st ! i = st ! i"
  by (induction ks arbitrary: st) (auto simp: write_cell_def)

lemma fold_write_hit:
  "distinct (map g ks) \<Longrightarrow> k \<in> set ks \<Longrightarrow> 0 \<le> g k \<Longrightarrow> g k < int (length st) \<Longrightarrow>
   fold (\<lambda>k st. write_cell st (Some (g k)) (h k)) ks st ! nat (g k) = h k"
proof (induction ks arbitrary: st)
  case Nil
  then show ?case by simp
next
  case (Cons a ks)
  show ?case
  proof (cases "k = a")
    case True
    have "\<forall>j \<in> set ks. g j \<noteq> int (nat (g a))" using Cons.prems True by (auto simp: image_iff)
    then have "fold (\<lambda>k st. write_cell st (Some (g k)) (h k)) ks (write_cell st (Some (g a)) (h a)) ! nat (g a)
      = write_cell st (Some (g a)) (h a) ! nat (g a)"
      by (rule fold_write_other)
    then show ?thesis using Cons.prems True by (simp add: write_cell_def)
  next
    case False
    then show ?thesis using Cons.prems Cons.IH [of "write_cell st (Some (g a)) (h a)"]
      by (simp add: write_cell_def)
  qed
qed


lemma index_inj:
  assumes "0 < w" "0 \<le> x" "x < w" "0 \<le> x'" "x' < w"
    and "y * w + x = y' * w + (x'::int)"
  shows "y = y' \<and> x = x'"
proof -
  have l: "(y * w + x) mod w = x" using assms(2,3) by simp
  have r: "(y' * w + x') mod w = x'" using assms(4,5) by simp
  have x: "x = x'" using l r assms(6) by metis
  with assms(6) have "y * w = y' * w" by simp
  then have "y = y'" using assms(1) by simp
  with x show ?thesis by simp
qed

lemma index_bound:
  assumes "0 \<le> x" "x < w" "0 \<le> y" "y < (h::int)"
  shows "0 \<le> y * w + x \<and> y * w + x < w * h"
proof -
  have w: "0 < w" using assms by simp
  have "0 \<le> y * w" using assms w by simp
  then have lo: "0 \<le> y * w + x" using assms by simp
  have "y + 1 \<le> h" using assms by simp
  then have "(y + 1) * w \<le> h * w" using w by (intro mult_right_mono) simp_all
  then have "y * w + x < w * h" using assms by (simp add: algebra_simps)
  with lo show ?thesis by simp
qed

lemma distinct_indices:
  assumes "0 < w"
  shows "distinct (map (\<lambda>p. fst p * w + snd p) (List.product [0..h - 1] [0..w - 1]))"
proof -
  have "inj_on (\<lambda>p. fst p * w + snd p) (set (List.product [0..h - 1] [0..w - 1]))"
  proof (rule inj_onI)
    fix p q :: "int \<times> int"
    assume p: "p \<in> set (List.product [0..h - 1] [0..w - 1])"
      and q: "q \<in> set (List.product [0..h - 1] [0..w - 1])"
      and e: "fst p * w + snd p = fst q * w + snd q"
    have "fst p = fst q \<and> snd p = snd q"
      using p q by (intro index_inj [OF assms _ _ _ _ e]) auto
    then show "p = q" by (simp add: prod_eq_iff)
  qed
  then show ?thesis by (simp add: distinct_map distinct_product)
qed

lemma simulationStep_product:
  "simulationStep cs w h r =
     fold (\<lambda>p st. write_cell st (Some (fst p * w + snd p))
                      (newCell cs w h r (snd p) (fst p)))
       (List.product [0..h - 1] [0..w - 1]) (replicate (length cs) 0)"
  unfolding simulationStep_def
  by (simp add: fold_product [where F = "\<lambda>x y st. write_cell st (Some (y * w + x))
      (newCell cs w h r x y)"])

lemma length_simulationStep: "length (simulationStep cs w h r) = length cs"
  by (simp add: simulationStep_product length_fold_write)

lemma simulationStep_nth:
  assumes "length cs = nat (w * h)" "0 \<le> x" "x < w" "0 \<le> y" "y < h"
  shows "simulationStep cs w h r ! nat (y * w + x) = newCell cs w h r x y"
proof -
  have w: "0 < w" using assms by simp
  have b: "0 \<le> y * w + x \<and> y * w + x < w * h"
    using assms by (intro index_bound) simp_all
  have "fold (\<lambda>p st. write_cell st (Some (fst p * w + snd p))
                      (newCell cs w h r (snd p) (fst p)))
       (List.product [0..h - 1] [0..w - 1]) (replicate (length cs) 0)
        ! nat (fst (y, x) * w + snd (y, x)) = newCell cs w h r (snd (y, x)) (fst (y, x))"
    using assms b distinct_indices [OF w, of h]
    by (intro fold_write_hit [where g = "\<lambda>p. fst p * w + snd p"
          and h = "\<lambda>p. newCell cs w h r (snd p) (fst p)"]) simp_all
  then show ?thesis by (simp add: simulationStep_product)
qed


lemma wrapped_in_range:
  assumes "0 < w" "0 < h" "p \<in> set (wrappedNeighbours w h x y)"
  shows "0 \<le> fst p \<and> fst p < w \<and> 0 \<le> snd p \<and> snd p < h"
  using assms by (auto simp: wrappedNeighbours_def)

lemma diagonal_neighbour:
  assumes "0 < w" "0 < h"
  shows "(w - 1, h - 1) \<in> set (wrappedNeighbours w h 0 0)"
proof -
  have "(- 1) mod w = w - 1" "(- 1) mod h = h - 1"
    using assms by (simp_all add: zmod_minus1)
  then show ?thesis
    by (simp add: wrappedNeighbours_def neighbourOffsets_def)
qed

lemma read_cell_update_other:
  "j \<noteq> int i \<Longrightarrow> read_cell (cs[i := v]) (Some j) = read_cell cs (Some j)"
  by (auto simp: read_cell_def)

lemma countNeighbors_ignores_self:
  assumes "2 \<le> w" "2 \<le> h" "0 \<le> x" "x < w" "0 \<le> y" "y < h"
  shows "countNeighbors (cs[nat (y * w + x) := v]) x y w h = countNeighbors cs x y w h"
proof -
  have w: "0 < w" and h: "0 < h" using assms by simp_all
  have nn: "0 \<le> y * w + x" using index_bound [OF assms(3-6)] by simp
  have "isLive (cs[nat (y * w + x) := v]) w p = isLive cs w p"
    if p: "p \<in> set (wrappedNeighbours w h x y)" for p
  proof -
    have r: "0 \<le> fst p \<and> fst p < w \<and> 0 \<le> snd p \<and> snd p < h"
      using wrapped_in_range [OF w h p] .
    have "p \<noteq> (x, y)" using p self_not_neighbour [OF assms] by auto
    then have "\<not> (snd p = y \<and> fst p = x)" by (auto simp: prod_eq_iff)
    then have "snd p * w + fst p \<noteq> y * w + x"
      using index_inj [OF w _ _ assms(3,4), of "fst p" "snd p" y] r by blast
    then have "snd p * w + fst p \<noteq> int (nat (y * w + x))" using nn by simp
    then show ?thesis by (simp add: isLive_def read_cell_update_other)
  qed
  then have "filter (isLive (cs[nat (y * w + x) := v]) w) (wrappedNeighbours w h x y) =
             filter (isLive cs w) (wrappedNeighbours w h x y)"
    by (intro filter_cong) simp_all
  then show ?thesis
    using assms w h by (simp add: countNeighbors_wrapped)
qed

lemma wrap_apart:
  assumes "(k::int) < w" "0 < k" 
  shows "(a + k) mod w \<noteq> a mod w"
proof
  assume "(a + k) mod w = a mod w"
  then have "w dvd (a + k) - a" by (simp only: mod_eq_dvd_iff)
  then have "w dvd k" by simp
  then have "w \<le> k" using assms(2) by (rule zdvd_imp_le)
  then show False using assms(1) by simp
qed

lemma three_apart:
  assumes "3 \<le> (w::int)"
  shows "(x - 1) mod w \<noteq> x mod w \<and> (x + 1) mod w \<noteq> x mod w \<and> (x - 1) mod w \<noteq> (x + 1) mod w"
proof -
  have a: "(x - 1 + 1) mod w \<noteq> (x - 1) mod w"
    using assms by (intro wrap_apart) simp_all
  have b: "(x + 1) mod w \<noteq> x mod w"
    using assms by (intro wrap_apart) simp_all
  have c: "(x - 1 + 2) mod w \<noteq> (x - 1) mod w"
    using assms by (intro wrap_apart) simp_all
  have "x - 1 + 1 = x" "x - 1 + 2 = x + 1" by simp_all
  then show ?thesis using a b c by metis
qed

lemma neighbours_distinct:
  assumes "3 \<le> w" "3 \<le> h"
  shows "distinct (wrappedNeighbours w h x y)"
proof -
  define xm xo xp where "xm = (x - 1) mod w" and "xo = x mod w" and "xp = (x + 1) mod w"
  define ym yo yp where "ym = (y - 1) mod h" and "yo = y mod h" and "yp = (y + 1) mod h"
  have l: "wrappedNeighbours w h x y =
      [(xm, ym), (xo, ym), (xp, ym), (xm, yo), (xp, yo), (xm, yp), (xo, yp), (xp, yp)]"
    by (simp add: wrappedNeighbours_def neighbourOffsets_def xm_def xo_def xp_def ym_def yo_def yp_def)
  have "xm \<noteq> xo \<and> xp \<noteq> xo \<and> xm \<noteq> xp"
    unfolding xm_def xo_def xp_def using assms(1) by (rule three_apart)
  moreover have "ym \<noteq> yo \<and> yp \<noteq> yo \<and> ym \<noteq> yp"
    unfolding ym_def yo_def yp_def using assms(2) by (rule three_apart)
  ultimately show ?thesis
    unfolding l by auto
qed

text \<open>
  Claim C2, as the code has it. For a cell \<open>(x, y)\<close> of a grid of positive width and
  height, \<open>countNeighbors\<close> is the number of offsets \<open>(dx, dy) \<noteq> (0, 0)\<close> with
  \<open>dx, dy \<in> {-1, 0, 1}\<close> whose cell, wrapped with the mathematical modulo, is live:
  the truncating \<open>%\<close> is applied to non-negative numbers only. The cell
  \<open>(w - 1, h - 1)\<close> is among the neighbours of \<open>(0, 0)\<close>. When the width and the
  height are at least 2, the cell itself is none of its neighbours, and the count does
  not depend on its value. When they are at least 3, the eight neighbours are eight
  different cells.
\<close>

theorem countNeighbors_torus:
  assumes "0 < w" "0 < h" "0 \<le> x" "x < w" "0 \<le> y" "y < h"
  shows "countNeighbors cs x y w h =
           int (length (filter (isLive cs w) (wrappedNeighbours w h x y))) \<and>
         (w - 1, h - 1) \<in> set (wrappedNeighbours w h 0 0) \<and>
         (2 \<le> w \<and> 2 \<le> h \<longrightarrow>
            (x, y) \<notin> set (wrappedNeighbours w h x y) \<and>
            countNeighbors (cs[nat (y * w + x) := v]) x y w h = countNeighbors cs x y w h) \<and>
         (3 \<le> w \<and> 3 \<le> h \<longrightarrow> distinct (wrappedNeighbours w h x y))"
proof (intro conjI impI)
  show "countNeighbors cs x y w h =
           int (length (filter (isLive cs w) (wrappedNeighbours w h x y)))"
    using assms by (rule countNeighbors_wrapped)
  show "(w - 1, h - 1) \<in> set (wrappedNeighbours w h 0 0)"
    using assms(1,2) by (rule diagonal_neighbour)
next
  assume big: "2 \<le> w \<and> 2 \<le> h"
  show "(x, y) \<notin> set (wrappedNeighbours w h x y)"
    using big assms(3-6) by (intro self_not_neighbour) simp_all
  show "countNeighbors (cs[nat (y * w + x) := v]) x y w h = countNeighbors cs x y w h"
    using big assms(3-6) by (intro countNeighbors_ignores_self) simp_all
next
  assume "3 \<le> w \<and> 3 \<le> h"
  then show "distinct (wrappedNeighbours w h x y)"
    by (intro neighbours_distinct) simp_all
qed

theorem countNeighbors_torus_witness:
  "countNeighbors [0, 0, 0, 0, 0, 0, 0, 0, 1] 0 0 3 3 = 1 \<and>
   (2, 2) \<in> set (wrappedNeighbours 3 3 0 0) \<and>
   (0, 0) \<notin> set (wrappedNeighbours 3 3 0 0) \<and>
   countNeighbors [1, 0, 0, 0, 0, 0, 0, 0, 1] 0 0 3 3 = 1 \<and>
   distinct (wrappedNeighbours 3 3 0 0)"
proof -
  let ?cs = "[0, 0, 0, 0, 0, 0, 0, 0, 1 :: byte]"
  have live: "int (length (filter (isLive ?cs 3) (wrappedNeighbours 3 3 0 0))) = 1"
    by (simp add: wrappedNeighbours_def neighbourOffsets_def isLive_def read_cell_def)
  have t: "countNeighbors ?cs 0 0 3 3 =
           int (length (filter (isLive ?cs 3) (wrappedNeighbours 3 3 0 0))) \<and>
         (3 - 1, 3 - 1) \<in> set (wrappedNeighbours 3 3 0 0) \<and>
         (2 \<le> (3::int) \<and> 2 \<le> (3::int) \<longrightarrow>
            (0, 0) \<notin> set (wrappedNeighbours 3 3 0 0) \<and>
            countNeighbors (?cs[nat (0 * 3 + 0) := 1]) 0 0 3 3 = countNeighbors ?cs 0 0 3 3) \<and>
         (3 \<le> (3::int) \<and> 3 \<le> (3::int) \<longrightarrow> distinct (wrappedNeighbours 3 3 0 0))"
    by (rule countNeighbors_torus) simp_all
  then have "countNeighbors ?cs 0 0 3 3 = 1"
    using live by simp
  moreover from t have "(2, 2) \<in> set (wrappedNeighbours 3 3 0 0)"
    by simp
  moreover from t have "(0, 0) \<notin> set (wrappedNeighbours 3 3 0 0)"
    by simp
  moreover from t have "countNeighbors (?cs[nat (0 * 3 + 0) := 1]) 0 0 3 3 = countNeighbors ?cs 0 0 3 3"
    by simp
  moreover from t have "distinct (wrappedNeighbours 3 3 0 0)"
    by simp
  ultimately show ?thesis by simp
qed

text \<open>
  On a grid of width 1 and height 1 all eight offsets wrap to the cell itself: a live
  cell is counted eight times.
\<close>

theorem countNeighbors_counts_itself:
  "countNeighbors [1] 0 0 1 1 = 8 \<and> countNeighbors [0] 0 0 1 1 = 0"
  by (simp add: countNeighbors_def js_rem_def cell_index_def read_cell_def)

text \<open>
  Claim C1. For a buffer of \<open>w * h\<close> cells that are 0 or 1, the buffer that
  \<open>simulationStep\<close> returns has the same length, and its cell at \<open>y * w + x\<close> is
  live exactly when the input cell was live and its neighbour count is in
  \<open>survival\<close>, or was dead and its neighbour count is in \<open>birth\<close>. The neighbour
  count is that of the input buffer: no write to the output changes a later decision.
\<close>

theorem simulationStep_rule:
  assumes "length cs = nat (w * h)" "set cs \<subseteq> {0, 1}"
    and "0 \<le> x" "x < w" "0 \<le> y" "y < h"
  shows "length (simulationStep cs w h r) = length cs \<and>
     simulationStep cs w h r ! nat (y * w + x) \<in> {0, 1} \<and>
     (simulationStep cs w h r ! nat (y * w + x) = 1 \<longleftrightarrow>
        cs ! nat (y * w + x) = 1 \<and> countNeighbors cs x y w h \<in> set (survival r) \<or>
        cs ! nat (y * w + x) = 0 \<and> countNeighbors cs x y w h \<in> set (birth r))"
proof -
  have b: "0 \<le> y * w + x \<and> y * w + x < w * h"
    using assms by (intro index_bound) simp_all
  then have i: "nat (y * w + x) < length cs" using assms(1) by simp
  then have "cs ! nat (y * w + x) \<in> {0, 1}" using assms(2) nth_mem by blast
  moreover have "read_cell cs (Some (y * w + x)) = Some (cs ! nat (y * w + x))"
    using b i by (simp add: read_cell_def)
  ultimately show ?thesis
    using simulationStep_nth [OF assms(1) assms(3-6), of r]
    by (auto simp: length_simulationStep newCell_def Let_def)
qed

theorem simulationStep_rule_witness:
  "length [0, 0, 0, 1, 1, 1, 0, 0, 0 :: byte] = nat (3 * 3) \<and>
   set [0, 0, 0, 1, 1, 1, 0, 0, 0 :: byte] \<subseteq> {0, 1} \<and>
   length (simulationStep [0, 0, 0, 1, 1, 1, 0, 0, 0] 3 3 life) = 9 \<and>
   simulationStep [0, 0, 0, 1, 1, 1, 0, 0, 0] 3 3 life ! 4 = 1"
proof -
  let ?cs = "[0, 0, 0, 1, 1, 1, 0, 0, 0 :: byte]"
  have len: "length ?cs = nat (3 * 3)" by simp
  have bits: "set ?cs \<subseteq> {0, 1}" by simp
  have n: "countNeighbors ?cs 1 1 3 3 = 2"
    by (simp add: countNeighbors_def js_rem_def cell_index_def read_cell_def)
  have t: "length (simulationStep ?cs 3 3 life) = length ?cs \<and>
     simulationStep ?cs 3 3 life ! nat (1 * 3 + 1) \<in> {0, 1} \<and>
     (simulationStep ?cs 3 3 life ! nat (1 * 3 + 1) = 1 \<longleftrightarrow>
        ?cs ! nat (1 * 3 + 1) = 1 \<and> countNeighbors ?cs 1 1 3 3 \<in> set (survival life) \<or>
        ?cs ! nat (1 * 3 + 1) = 0 \<and> countNeighbors ?cs 1 1 3 3 \<in> set (birth life))"
    using len bits by (rule simulationStep_rule) simp_all
  then have "simulationStep ?cs 3 3 life ! 4 = 1"
    by (simp add: n life_def)
  moreover from t have "length (simulationStep ?cs 3 3 life) = 9"
    by simp
  ultimately show ?thesis using len bits by blast
qed

section \<open>Creating a grid\<close>

lemma length_write_cell: "length (write_cell cs i v) = length cs"
  by (simp add: write_cell_def split: option.splits)

lemma fold_pattern_length:
  "length (fold (\<lambda>pos cs. write_cell cs (f pos) v) ps cs) = length cs"
  by (induction ps arbitrary: cs) (simp_all add: length_write_cell)

lemma fold_pattern_nth:
  "i < length cs \<Longrightarrow>
   fold (\<lambda>pos cs. write_cell cs (f pos) v) ps cs ! i =
     (if Some (int i) \<in> f ` set ps then v else cs ! i)"
proof (induction ps arbitrary: cs)
  case Nil
  then show ?case by simp
next
  case (Cons p ps)
  have l: "i < length (write_cell cs (f p) v)"
    using Cons.prems by (simp add: length_write_cell)
  have "write_cell cs (f p) v ! i = (if f p = Some (int i) then v else cs ! i)"
    using Cons.prems by (auto simp: write_cell_def split: option.splits)
  then show ?case
    using Cons.IH [OF l] by auto
qed

lemma createInitialGrid_fold:
  "createInitialGrid L w h ip =
     (if w * h < 0 \<or> int L < w * h then Inl RangeError
      else Inr (fold (\<lambda>pos cs. write_cell cs
                   (cell_index (js_rem (snd pos + h) h) w (js_rem (fst pos + w) w)) 1)
                 (positions ip) (replicate (nat (w * h)) 0)))"
  by (simp add: createInitialGrid_def new_Uint8Array_def positions_def Let_def
      split: option.splits)

lemma wrapped_index:
  assumes "0 < w" "0 < h" "- w \<le> fst p" "- h \<le> snd p"
  shows "cell_index (js_rem (snd p + h) h) w (js_rem (fst p + w) w) =
         Some ((snd p mod h) * w + fst p mod w)"
  using assms by (simp add: js_rem_nonneg cell_index_def)

lemma createInitialGrid_nth:
  assumes "0 \<le> w * h" "w * h \<le> int L"
  shows "\<exists>cs. createInitialGrid L w h ip = Inr cs \<and> length cs = nat (w * h) \<and>
           (\<forall>i < nat (w * h). cs ! i =
              (if Some (int i) \<in>
                    (\<lambda>pos. cell_index (js_rem (snd pos + h) h) w (js_rem (fst pos + w) w)) `
                      set (positions ip)
               then 1 else 0))"
proof -
  let ?f = "\<lambda>pos. cell_index (js_rem (snd pos + h) h) w (js_rem (fst pos + w) w)"
  let ?cs = "fold (\<lambda>pos cs. write_cell cs (?f pos) 1) (positions ip) (replicate (nat (w * h)) 0)"
  have "createInitialGrid L w h ip = Inr ?cs"
    using assms by (simp add: createInitialGrid_fold)
  moreover have "length ?cs = nat (w * h)"
    by (simp add: fold_pattern_length)
  moreover have "?cs ! i = (if Some (int i) \<in> ?f ` set (positions ip) then 1 else 0)"
    if "i < nat (w * h)" for i
  proof -
    have "i < length (replicate (nat (w * h)) (0::byte))" using that by simp
    then have "?cs ! i = (if Some (int i) \<in> ?f ` set (positions ip) then 1
                          else replicate (nat (w * h)) 0 ! i)"
      by (rule fold_pattern_nth)
    then show ?thesis using that by simp
  qed
  ultimately show ?thesis by blast
qed

lemma wrapped_cell_hit:
  assumes "0 < w" "0 < h" "- w \<le> fst p" "- h \<le> snd p" "0 \<le> x" "x < w" "0 \<le> y" "y < h"
  shows "(cell_index (js_rem (snd p + h) h) w (js_rem (fst p + w) w) = Some (y * w + x)) =
         ((fst p mod w, snd p mod h) = (x, y))"
proof -
  have f: "cell_index (js_rem (snd p + h) h) w (js_rem (fst p + w) w) =
           Some ((snd p mod h) * w + fst p mod w)"
    using assms(1-4) by (rule wrapped_index)
  have "(snd p mod h) * w + fst p mod w = y * w + x \<longleftrightarrow> snd p mod h = y \<and> fst p mod w = x"
    using index_inj [OF assms(1) _ _ assms(5,6), of "fst p mod w" "snd p mod h" y] assms(1)
    by auto
  with f show ?thesis by auto
qed

lemma wrapped_cell_in_grid:
  assumes "0 < w" "0 < (h::int)"
  shows "0 \<le> (b mod h) * w + a mod w \<and> (b mod h) * w + a mod w < w * h"
  using assms index_bound [of "a mod w" w "b mod h" h] by simp

text \<open>
  \<open>createInitialGrid\<close> checks no dimension. With a zero width it returns the empty
  buffer, with two negative dimensions a buffer of their product; and a coordinate
  below \<open>-width\<close> is not wrapped into the row it belongs to: \<open>(-7, 1)\<close> on a 5 by
  5 grid sets index 3, not index 8. The engine of these runs allocates up to
  \<open>2\<^sup>3\<^sup>2 - 1\<close> bytes.
\<close>

theorem createInitialGrid_no_dimension_check:
  "createInitialGrid 4294967295 0 5 None = Inr [] \<and>
   createInitialGrid 4294967295 (- 2) (- 3) None = Inr [0, 0, 0, 0, 0, 0] \<and>
   createInitialGrid 4294967295 5 5 (Some [(- 7, 1)]) =
     Inr [0, 0, 0, 1, 0, 0, 0, 0, 0, 0, 0, 0, 0, 0, 0, 0, 0, 0, 0, 0, 0, 0, 0, 0, 0]"
proof -
  have a: "fold (\<lambda>pos cs. write_cell cs
              (cell_index (js_rem (snd pos + 5) 5) 0 (js_rem (fst pos + 0) 0)) 1)
            (positions None) (replicate (nat (0 * 5)) 0) = []"
    by code_simp
  have b: "fold (\<lambda>pos cs. write_cell cs
              (cell_index (js_rem (snd pos + - 3) (- 3)) (- 2) (js_rem (fst pos + - 2) (- 2))) 1)
            (positions None) (replicate (nat (- 2 * - 3)) 0) = [0, 0, 0, 0, 0, 0]"
    by code_simp
  have c: "fold (\<lambda>pos cs. write_cell cs
              (cell_index (js_rem (snd pos + 5) 5) 5 (js_rem (fst pos + 5) 5)) 1)
            (positions (Some [(- 7, 1)])) (replicate (nat (5 * 5)) 0) =
           [0, 0, 0, 1, 0, 0, 0, 0, 0, 0, 0, 0, 0, 0, 0, 0, 0, 0, 0, 0, 0, 0, 0, 0, 0]"
    by code_simp
  show ?thesis
    unfolding createInitialGrid_fold a b c by simp
qed

text \<open>
  Claim C8, as the code has it. The only failure is the \<open>RangeError\<close> of the
  allocation, when \<open>width * height\<close> is negative or more than the engine allocates;
  when the product is 0 the result is the empty buffer. For a positive width and
  height whose product the engine allocates, the result has \<open>width * height\<close> cells,
  each 0 or 1; every position with \<open>x \<ge> -width\<close> and \<open>y \<ge> -height\<close> has made
  the cell \<open>(x mod width, y mod height)\<close> live, whatever the other positions are; and
  when all positions are such, the cell \<open>(x, y)\<close> is live exactly when some position
  wraps to it.
\<close>

theorem createInitialGrid_cells:
  "(w * h < 0 \<or> int L < w * h \<longrightarrow> createInitialGrid L w h ip = Inl RangeError) \<and>
   (w * h = 0 \<longrightarrow> createInitialGrid L w h ip = Inr []) \<and>
   (0 < w \<and> 0 < h \<and> w * h \<le> int L \<longrightarrow>
      (\<exists>cs. createInitialGrid L w h ip = Inr cs \<and> length cs = nat (w * h) \<and>
         set cs \<subseteq> {0, 1} \<and>
         (\<forall>p \<in> set (positions ip). - w \<le> fst p \<and> - h \<le> snd p \<longrightarrow>
            cs ! nat ((snd p mod h) * w + fst p mod w) = 1) \<and>
         ((\<forall>p \<in> set (positions ip). - w \<le> fst p \<and> - h \<le> snd p) \<longrightarrow>
            (\<forall>x y. 0 \<le> x \<and> x < w \<and> 0 \<le> y \<and> y < h \<longrightarrow>
               cs ! nat (y * w + x) =
                 (if (x, y) \<in> (\<lambda>p. (fst p mod w, snd p mod h)) ` set (positions ip)
                  then 1 else 0)))))"
proof (intro conjI impI)
  assume "w * h < 0 \<or> int L < w * h"
  then show "createInitialGrid L w h ip = Inl RangeError"
    by (auto simp: createInitialGrid_fold)
next
  assume z: "w * h = 0"
  have "length (fold (\<lambda>pos cs. write_cell cs
          (cell_index (js_rem (snd pos + h) h) w (js_rem (fst pos + w) w)) 1)
          (positions ip) (replicate (nat (w * h)) 0)) = 0"
    using z by (simp only: fold_pattern_length) simp
  then show "createInitialGrid L w h ip = Inr []"
    by (simp add: createInitialGrid_fold z)
next
  assume a: "0 < w \<and> 0 < h \<and> w * h \<le> int L"
  let ?f = "\<lambda>pos. cell_index (js_rem (snd pos + h) h) w (js_rem (fst pos + w) w)"
  have area: "0 \<le> w * h" using a by simp
  obtain cs where c: "createInitialGrid L w h ip = Inr cs" and len: "length cs = nat (w * h)"
    and nth: "\<forall>i < nat (w * h). cs ! i = (if Some (int i) \<in> ?f ` set (positions ip) then 1 else 0)"
    using createInitialGrid_nth [OF area, of L ip] a by blast
  have bits: "set cs \<subseteq> {0, 1}"
  proof
    fix v assume "v \<in> set cs"
    then obtain i where i: "i < length cs" and v: "cs ! i = v"
      by (auto simp: in_set_conv_nth)
    have "cs ! i = (if Some (int i) \<in> ?f ` set (positions ip) then 1 else 0)"
      using nth i len by simp
    then have "cs ! i = 0 \<or> cs ! i = 1" by presburger
    then show "v \<in> {0, 1}" using v by auto
  qed
  have each: "cs ! nat ((snd p mod h) * w + fst p mod w) = 1"
    if p: "p \<in> set (positions ip)" and far: "- w \<le> fst p \<and> - h \<le> snd p" for p
  proof -
    have b: "0 \<le> (snd p mod h) * w + fst p mod w \<and> (snd p mod h) * w + fst p mod w < w * h"
      using a by (intro wrapped_cell_in_grid) simp_all
    have "?f p = Some ((snd p mod h) * w + fst p mod w)"
      using a far by (intro wrapped_index) simp_all
    then have "Some (int (nat ((snd p mod h) * w + fst p mod w))) \<in> ?f ` set (positions ip)"
      using p b by (simp add: image_iff) metis
    moreover have "nat ((snd p mod h) * w + fst p mod w) < nat (w * h)"
      using b by simp
    ultimately show ?thesis using nth by simp
  qed
  have rest: "cs ! nat (y * w + x) =
      (if (x, y) \<in> (\<lambda>p. (fst p mod w, snd p mod h)) ` set (positions ip) then 1 else 0)"
    if all: "\<forall>p \<in> set (positions ip). - w \<le> fst p \<and> - h \<le> snd p"
      and xy: "0 \<le> x \<and> x < w \<and> 0 \<le> y \<and> y < h" for x y
  proof -
    have b: "0 \<le> y * w + x \<and> y * w + x < w * h"
      using xy by (intro index_bound) simp_all
    have pw: "(Some (y * w + x) = ?f p) = ((x, y) = (fst p mod w, snd p mod h))"
      if "p \<in> set (positions ip)" for p
      using wrapped_cell_hit [of w h p x y] that all a xy by (auto simp: eq_commute)
    have e: "int (nat (y * w + x)) = y * w + x" using b by simp
    have "(Some (int (nat (y * w + x))) \<in> ?f ` set (positions ip)) =
          ((x, y) \<in> (\<lambda>p. (fst p mod w, snd p mod h)) ` set (positions ip))"
      unfolding image_iff e by (rule bex_cong) (simp_all add: pw)
    moreover have "nat (y * w + x) < nat (w * h)" using b by simp
    ultimately show ?thesis using nth by simp
  qed
  show "\<exists>cs. createInitialGrid L w h ip = Inr cs \<and> length cs = nat (w * h) \<and>
         set cs \<subseteq> {0, 1} \<and>
         (\<forall>p \<in> set (positions ip). - w \<le> fst p \<and> - h \<le> snd p \<longrightarrow>
            cs ! nat ((snd p mod h) * w + fst p mod w) = 1) \<and>
         ((\<forall>p \<in> set (positions ip). - w \<le> fst p \<and> - h \<le> snd p) \<longrightarrow>
            (\<forall>x y. 0 \<le> x \<and> x < w \<and> 0 \<le> y \<and> y < h \<longrightarrow>
               cs ! nat (y * w + x) =
                 (if (x, y) \<in> (\<lambda>p. (fst p mod w, snd p mod h)) ` set (positions ip)
                  then 1 else 0)))"
  proof (intro exI [of _ cs] conjI)
    show "createInitialGrid L w h ip = Inr cs" by (rule c)
    show "length cs = nat (w * h)" by (rule len)
    show "set cs \<subseteq> {0, 1}" by (rule bits)
    show "\<forall>p \<in> set (positions ip). - w \<le> fst p \<and> - h \<le> snd p \<longrightarrow>
            cs ! nat ((snd p mod h) * w + fst p mod w) = 1"
      using each by blast
    show "(\<forall>p \<in> set (positions ip). - w \<le> fst p \<and> - h \<le> snd p) \<longrightarrow>
            (\<forall>x y. 0 \<le> x \<and> x < w \<and> 0 \<le> y \<and> y < h \<longrightarrow>
               cs ! nat (y * w + x) =
                 (if (x, y) \<in> (\<lambda>p. (fst p mod w, snd p mod h)) ` set (positions ip)
                  then 1 else 0))"
      using rest by blast
  qed
qed

theorem createInitialGrid_cells_witness:
  "createInitialGrid 4294967295 1 (- 1) None = Inl RangeError \<and>
   createInitialGrid 10 4 4 None = Inl RangeError \<and>
   createInitialGrid 4294967295 0 5 (Some [(1, 1)]) = Inr [] \<and>
   (\<exists>cs. createInitialGrid 4294967295 3 2 (Some [(- 1, 3), (- 7, 1)]) = Inr cs \<and>
      length cs = 6 \<and> set cs \<subseteq> {0, 1} \<and> cs ! 5 = 1) \<and>
   (\<exists>cs. createInitialGrid 4294967295 3 2 (Some [(- 1, 3)]) = Inr cs \<and>
      length cs = 6 \<and> cs ! 5 = 1 \<and> cs ! 0 = 0)"
proof -
  have negative: "createInitialGrid 4294967295 1 (- 1) None = Inl RangeError"
    using createInitialGrid_cells [where w = 1 and h = "- 1" and L = 4294967295 and ip = None]
    by simp
  have large: "createInitialGrid 10 4 4 None = Inl RangeError"
    using createInitialGrid_cells [where w = 4 and h = 4 and L = 10 and ip = None]
    by simp
  have empty: "createInitialGrid 4294967295 0 5 (Some [(1, 1)]) = Inr []"
    using createInitialGrid_cells [where w = 0 and h = 5 and L = 4294967295 and ip = "Some [(1, 1)]"]
    by simp
  have fits: "0 < (3::int) \<and> 0 < (2::int) \<and> 3 * 2 \<le> int 4294967295"
    by simp
  note with_stray = createInitialGrid_cells [where w = 3 and h = 2 and L = 4294967295
      and ip = "Some [(- 1, 3), (- 7, 1)]", THEN conjunct2, THEN conjunct2, THEN mp, OF fits]
  then obtain cs where cs: "createInitialGrid 4294967295 3 2 (Some [(- 1, 3), (- 7, 1)]) = Inr cs \<and>
      length cs = nat (3 * 2) \<and> set cs \<subseteq> {0, 1} \<and>
      (\<forall>p \<in> set (positions (Some [(- 1, 3), (- 7, 1)])). - 3 \<le> fst p \<and> - 2 \<le> snd p \<longrightarrow>
         cs ! nat ((snd p mod 2) * 3 + fst p mod 3) = 1) \<and>
      ((\<forall>p \<in> set (positions (Some [(- 1, 3), (- 7, 1)])). - 3 \<le> fst p \<and> - 2 \<le> snd p) \<longrightarrow>
         (\<forall>x y. 0 \<le> x \<and> x < 3 \<and> 0 \<le> y \<and> y < 2 \<longrightarrow>
            cs ! nat (y * 3 + x) =
              (if (x, y) \<in> (\<lambda>p. (fst p mod 3, snd p mod 2)) `
                    set (positions (Some [(- 1, 3), (- 7, 1)]))
               then 1 else 0)))" ..
  have "cs ! nat ((3 mod 2) * 3 + (- 1) mod 3) = 1"
    using cs [THEN conjunct2, THEN conjunct2, THEN conjunct2, THEN conjunct1]
    by (simp add: positions_def)
  then have "cs ! 5 = 1" by simp
  then have stray: "\<exists>cs. createInitialGrid 4294967295 3 2 (Some [(- 1, 3), (- 7, 1)]) = Inr cs \<and>
      length cs = 6 \<and> set cs \<subseteq> {0, 1} \<and> cs ! 5 = 1"
    using cs [THEN conjunct1] cs [THEN conjunct2, THEN conjunct1]
      cs [THEN conjunct2, THEN conjunct2, THEN conjunct1]
    by (intro exI [of _ cs]) simp
  note without_stray = createInitialGrid_cells [where w = 3 and h = 2 and L = 4294967295
      and ip = "Some [(- 1, 3)]", THEN conjunct2, THEN conjunct2, THEN mp, OF fits]
  then obtain ds where ds: "createInitialGrid 4294967295 3 2 (Some [(- 1, 3)]) = Inr ds \<and>
      length ds = nat (3 * 2) \<and> set ds \<subseteq> {0, 1} \<and>
      (\<forall>p \<in> set (positions (Some [(- 1, 3)])). - 3 \<le> fst p \<and> - 2 \<le> snd p \<longrightarrow>
         ds ! nat ((snd p mod 2) * 3 + fst p mod 3) = 1) \<and>
      ((\<forall>p \<in> set (positions (Some [(- 1, 3)])). - 3 \<le> fst p \<and> - 2 \<le> snd p) \<longrightarrow>
         (\<forall>x y. 0 \<le> x \<and> x < 3 \<and> 0 \<le> y \<and> y < 2 \<longrightarrow>
            ds ! nat (y * 3 + x) =
              (if (x, y) \<in> (\<lambda>p. (fst p mod 3, snd p mod 2)) ` set (positions (Some [(- 1, 3)]))
               then 1 else 0)))" ..
  have good: "\<forall>p \<in> set (positions (Some [(- 1, 3)])). - 3 \<le> fst p \<and> - 2 \<le> snd p"
    by (simp add: positions_def)
  note cells = ds [THEN conjunct2, THEN conjunct2, THEN conjunct2, THEN conjunct2, THEN mp,
      OF good, rule_format]
  have "ds ! nat (1 * 3 + 2) =
      (if (2, 1) \<in> (\<lambda>p. (fst p mod 3, snd p mod 2)) ` set (positions (Some [(- 1, 3)]))
       then 1 else 0)"
    by (rule cells) simp
  then have d5: "ds ! 5 = 1" by (simp add: positions_def)
  have "ds ! nat (0 * 3 + 0) =
      (if (0, 0) \<in> (\<lambda>p. (fst p mod 3, snd p mod 2)) ` set (positions (Some [(- 1, 3)]))
       then 1 else 0)"
    by (rule cells) simp
  then have d0: "ds ! 0 = 0" by (simp add: positions_def)
  have clean: "\<exists>cs. createInitialGrid 4294967295 3 2 (Some [(- 1, 3)]) = Inr cs \<and>
      length cs = 6 \<and> cs ! 5 = 1 \<and> cs ! 0 = 0"
    using ds [THEN conjunct1] ds [THEN conjunct2, THEN conjunct1] d5 d0
    by (intro exI [of _ ds]) simp
  show ?thesis using negative large empty stray clean by (intro conjI)
qed

section \<open>The glider\<close>

lemma glider_cells:
  "fold (\<lambda>pos cs. write_cell cs
          (cell_index (js_rem (snd pos + 6) 6) 6 (js_rem (fst pos + 6) 6)) 1)
     (positions (Some glider)) (replicate (nat (6 * 6)) 0) =
   [0, 0, 0, 0, 0, 0, 0, 1, 1, 1, 0, 0, 0, 0, 0, 1, 0, 0, 0, 0, 1, 0, 0,
      0, 0, 0, 0, 0, 0, 0, 0, 0, 0, 0, 0, 0]"
  by code_simp

lemma glider_grid:
  "createInitialGrid L 6 6 (Some glider) =
     (if 36 \<le> L then Inr [0, 0, 0, 0, 0, 0, 0, 1, 1, 1, 0, 0, 0, 0, 0, 1, 0, 0, 0, 0, 1, 0, 0,
      0, 0, 0, 0, 0, 0, 0, 0, 0, 0, 0, 0, 0]
      else Inl RangeError)"
  unfolding createInitialGrid_fold glider_cells by auto

lemma glider_after_4: "generations 4 [0, 0, 0, 0, 0, 0, 0, 1, 1, 1, 0, 0, 0, 0, 0, 1, 0, 0, 0, 0, 1, 0, 0,
      0, 0, 0, 0, 0, 0, 0, 0, 0, 0, 0, 0, 0] 6 6 life =
     [0, 0, 1, 1, 1, 0, 0, 0, 0, 0, 1, 0, 0, 0, 0, 1, 0, 0, 0, 0, 0, 0, 0,
      0, 0, 0, 0, 0, 0, 0, 0, 0, 0, 0, 0, 0]"
  by code_simp

lemma live_after_4: "liveCells [0, 0, 1, 1, 1, 0, 0, 0, 0, 0, 1, 0, 0, 0, 0, 1, 0, 0, 0, 0, 0, 0, 0,
      0, 0, 0, 0, 0, 0, 0, 0, 0, 0, 0, 0, 0] 6 6 = [(2,0),(3,0),(4,0),(4,1),(3,2)]"
  by code_simp

text \<open>
  The seed of claim C5 is the glider that travels towards smaller \<open>y\<close>: after four
  generations the live cells are not the seed moved by \<open>(+1, +1)\<close>. The engine of this
  run allocates up to \<open>2\<^sup>3\<^sup>2 - 1\<close> bytes.
\<close>

theorem glider_not_down_right:
  "createInitialGrid 4294967295 6 6 (Some glider) =
     Inr [0, 0, 0, 0, 0, 0, 0, 1, 1, 1, 0, 0, 0, 0, 0, 1, 0, 0, 0, 0, 1, 0, 0,
      0, 0, 0, 0, 0, 0, 0, 0, 0, 0, 0, 0, 0] \<and>
   set (liveCells (generations 4
     [0, 0, 0, 0, 0, 0, 0, 1, 1, 1, 0, 0, 0, 0, 0, 1, 0, 0, 0, 0, 1, 0, 0,
      0, 0, 0, 0, 0, 0, 0, 0, 0, 0, 0, 0, 0] 6 6 life) 6 6) \<noteq>
   set (translate 1 1 6 6 glider)"
proof -
  have "(2, 0) \<notin> set (translate 1 1 6 6 glider)"
    by (simp add: translate_def glider_def)
  moreover have "(2, 0) \<in> set [(2, 0), (3, 0), (4, 0), (4, 1), (3, 2) :: int \<times> int]"
    by simp
  ultimately have "set [(2, 0), (3, 0), (4, 0), (4, 1), (3, 2)] \<noteq> set (translate 1 1 6 6 glider)"
    by metis
  moreover have "(36::nat) \<le> 4294967295"
    by simp
  ultimately show ?thesis
    by (simp only: glider_grid glider_after_4 live_after_4 simp_thms if_True)
qed

text \<open>
  Claim C5, as the code has it. On the 6 by 6 torus under B3/S23, four generations move
  the seed \<open>(1,1), (2,1), (3,1), (3,2), (2,3)\<close> by \<open>(+1, -1)\<close> modulo 6. The seed is
  the grid that \<open>createInitialGrid\<close> returns for these positions in every engine that
  allocates its 36 cells.
\<close>

theorem glider_up_right:
  "createInitialGrid L 6 6 (Some glider) =
     (if 36 \<le> L then Inr [0, 0, 0, 0, 0, 0, 0, 1, 1, 1, 0, 0, 0, 0, 0, 1, 0, 0, 0, 0, 1, 0, 0,
      0, 0, 0, 0, 0, 0, 0, 0, 0, 0, 0, 0, 0]
      else Inl RangeError) \<and>
   set (liveCells (generations 4
     [0, 0, 0, 0, 0, 0, 0, 1, 1, 1, 0, 0, 0, 0, 0, 1, 0, 0, 0, 0, 1, 0, 0,
      0, 0, 0, 0, 0, 0, 0, 0, 0, 0, 0, 0, 0] 6 6 life) 6 6) =
   set (translate 1 (- 1) 6 6 glider)"
proof -
  have "set [(2, 0), (3, 0), (4, 0), (4, 1), (3, 2)] = set (translate 1 (- 1) 6 6 glider)"
    by (simp add: translate_def glider_def)
  then show ?thesis
    by (simp only: glider_grid glider_after_4 live_after_4 simp_thms)
qed

section \<open>Toggling a cell\<close>

lemma toggleCell_in_buffer:
  assumes "0 \<le> y * width g + x" "y * width g + x < int (length (cells g))"
  shows "toggleCell x y g prev =
     prev\<lparr>cells := (cells g)[nat (y * width g + x) :=
                     (if cells g ! nat (y * width g + x) = 1 then 0 else 1)]\<rparr>"
  using assms by (simp add: toggleCell_def Let_def read_cell_def write_cell_def)

lemma toggleCell_outside_buffer:
  assumes "y * width g + x < 0 \<or> int (length (cells g)) \<le> y * width g + x"
  shows "toggleCell x y g prev = prev\<lparr>cells := cells g\<rparr>"
  using assms by (auto simp: toggleCell_def Let_def read_cell_def write_cell_def)

text \<open>The second call is made by the callback of the render that follows the first.\<close>

lemma toggleCell_twice:
  assumes "set (cells g) \<subseteq> {0, 1}"
  shows "toggleCell x y (toggleCell x y g g) (toggleCell x y g g) = g"
proof (cases "0 \<le> y * width g + x \<and> y * width g + x < int (length (cells g))")
  case True
  define i where "i = nat (y * width g + x)"
  define c where "c = cells g ! i"
  define g1 where "g1 = toggleCell x y g g"
  have i: "i < length (cells g)" using True i_def by linarith
  then have v: "c = 0 \<or> c = 1"
    using assms nth_mem c_def by blast
  have g1: "g1 = g\<lparr>cells := (cells g)[i := (if c = 1 then 0 else 1)]\<rparr>"
    unfolding g1_def i_def c_def using True by (intro toggleCell_in_buffer) simp_all
  have w1: "width g1 = width g" and l1: "length (cells g1) = length (cells g)"
    by (simp_all add: g1)
  have c1: "cells g1 ! i = (if c = 1 then 0 else 1)"
    using i by (simp add: g1)
  have "toggleCell x y g1 g1 =
      g1\<lparr>cells := (cells g1)[nat (y * width g1 + x) :=
                  (if cells g1 ! nat (y * width g1 + x) = 1 then 0 else 1)]\<rparr>"
    using True w1 l1 by (intro toggleCell_in_buffer) simp_all
  then have "toggleCell x y g1 g1 = g1\<lparr>cells := (cells g1)[i := (if cells g1 ! i = 1 then 0 else 1)]\<rparr>"
    by (simp add: w1 i_def)
  also have "(if cells g1 ! i = 1 then 0 else 1) = c"
    using v c1 by auto
  also have "g1\<lparr>cells := (cells g1)[i := c]\<rparr> = g\<lparr>cells := (cells g)[i := c]\<rparr>"
    by (simp add: g1)
  also have "\<dots> = g"
    by (simp add: c_def)
  finally show ?thesis by (simp add: g1_def)
next
  case False
  then have "toggleCell x y g g = g\<lparr>cells := cells g\<rparr>"
    by (intro toggleCell_outside_buffer) auto
  then show ?thesis by simp
qed

text \<open>
  Two calls of the callback of one render: the second call starts again from the
  captured cells and replaces what the first has set.
\<close>

lemma toggleCell_same_callback:
  "toggleCell x' y' g (toggleCell x y g prev) = toggleCell x' y' g prev"
  by (simp add: toggleCell_def Let_def)

lemma getGridCoords_inside:
  "getGridCoords canvas g gridX gridY = Some p \<Longrightarrow>
   p = (gridX, gridY) \<and> 0 \<le> fst p \<and> fst p < width g \<and> 0 \<le> snd p \<and> snd p < height g"
  by (auto simp: getGridCoords_def split: if_splits)

lemma getGridCoords_outside:
  "gridX < 0 \<or> width g \<le> gridX \<or> gridY < 0 \<or> height g \<le> gridY \<Longrightarrow>
   getGridCoords canvas g gridX gridY = None"
  by (auto simp: getGridCoords_def)

lemma handleMouseDown_call:
  "snd (handleMouseDown canvas g e gridX gridY c) = None \<or>
   snd (handleMouseDown canvas g e gridX gridY c) = getGridCoords canvas g gridX gridY"
  by (simp add: handleMouseDown_def)

lemma handleMouseMove_call:
  "snd (handleMouseMove canvas g gridX gridY c) = None \<or>
   snd (handleMouseMove canvas g gridX gridY c) = getGridCoords canvas g gridX gridY"
  by (simp add: handleMouseMove_def)

lemma handleClick_call:
  "snd (handleClick canvas g gridX gridY c) = None \<or>
   snd (handleClick canvas g gridX gridY c) = getGridCoords canvas g gridX gridY"
  by (simp add: handleClick_def)

text \<open>
  \<open>toggleCell\<close> checks no coordinate: on a 3 by 3 grid, called by the callback of
  the current render, \<open>x = 3\<close> in row 0 flips the first cell of row 1.
\<close>

theorem toggleCell_unguarded:
  "toggleCell 3 0 \<lparr>width = 3, height = 3, cells = [0, 0, 0, 0, 0, 0, 0, 0, 0]\<rparr>
     \<lparr>width = 3, height = 3, cells = [0, 0, 0, 0, 0, 0, 0, 0, 0]\<rparr> =
     \<lparr>width = 3, height = 3, cells = [0, 0, 0, 1, 0, 0, 0, 0, 0]\<rparr>"
  by (simp add: toggleCell_def Let_def read_cell_def write_cell_def)

text \<open>
  Claim C9, as the code has it. \<open>toggleCell\<close> checks no coordinate and computes the
  new cells from the grid \<open>g\<close> that the render of the callback captured, not from the
  grid state \<open>prev\<close> that it replaces. When the index \<open>y * width + x\<close> is inside
  the captured buffer, the new cells are the captured cells with that cell replaced by
  0 if it was 1 and by 1 otherwise; when it is outside, they are the captured cells and
  nothing throws. Called by the callback of the current render, with coordinates
  inside the grid, it therefore flips exactly the cell at \<open>y * width + x\<close>; on a
  grid of cells 0 and 1, a second call by the callback of the next render gives the
  grid back, while a second call of the same callback starts again from the captured
  cells, so that two calls for one cell flip it once. The range check is the
  canvas's: each of its mouse handlers calls \<open>onCellClick\<close> only with what
  \<open>getGridCoords\<close> returns, coordinates inside the grid, and makes no call for a
  pointer outside the grid.
\<close>

theorem toggleCell_flip:
  "(0 \<le> y * width g + x \<and> y * width g + x < int (length (cells g)) \<longrightarrow>
      toggleCell x y g prev =
        prev\<lparr>cells := (cells g)[nat (y * width g + x) :=
                        (if cells g ! nat (y * width g + x) = 1 then 0 else 1)]\<rparr>) \<and>
   (y * width g + x < 0 \<or> int (length (cells g)) \<le> y * width g + x \<longrightarrow>
      toggleCell x y g prev = prev\<lparr>cells := cells g\<rparr>) \<and>
   (0 \<le> x \<and> x < width g \<and> 0 \<le> y \<and> y < height g \<and>
    length (cells g) = nat (width g * height g) \<longrightarrow>
      toggleCell x y g g =
        g\<lparr>cells := (cells g)[nat (y * width g + x) :=
                     (if cells g ! nat (y * width g + x) = 1 then 0 else 1)]\<rparr>) \<and>
   (set (cells g) \<subseteq> {0, 1} \<longrightarrow>
      toggleCell x y (toggleCell x y g g) (toggleCell x y g g) = g) \<and>
   toggleCell x' y' g (toggleCell x y g prev) = toggleCell x' y' g prev \<and>
   (snd (handleMouseDown canvas g e gridX gridY c) = None \<or>
    snd (handleMouseDown canvas g e gridX gridY c) = Some (gridX, gridY) \<and>
      0 \<le> gridX \<and> gridX < width g \<and> 0 \<le> gridY \<and> gridY < height g) \<and>
   (snd (handleMouseMove canvas g gridX gridY c) = None \<or>
    snd (handleMouseMove canvas g gridX gridY c) = Some (gridX, gridY) \<and>
      0 \<le> gridX \<and> gridX < width g \<and> 0 \<le> gridY \<and> gridY < height g) \<and>
   (snd (handleClick canvas g gridX gridY c) = None \<or>
    snd (handleClick canvas g gridX gridY c) = Some (gridX, gridY) \<and>
      0 \<le> gridX \<and> gridX < width g \<and> 0 \<le> gridY \<and> gridY < height g) \<and>
   (gridX < 0 \<or> width g \<le> gridX \<or> gridY < 0 \<or> height g \<le> gridY \<longrightarrow>
      snd (handleMouseDown canvas g e gridX gridY c) = None \<and>
      snd (handleMouseMove canvas g gridX gridY c) = None \<and>
      snd (handleClick canvas g gridX gridY c) = None)"
proof (intro conjI impI)
  assume "0 \<le> y * width g + x \<and> y * width g + x < int (length (cells g))"
  then show "toggleCell x y g prev =
        prev\<lparr>cells := (cells g)[nat (y * width g + x) :=
                        (if cells g ! nat (y * width g + x) = 1 then 0 else 1)]\<rparr>"
    by (intro toggleCell_in_buffer) simp_all
next
  assume "y * width g + x < 0 \<or> int (length (cells g)) \<le> y * width g + x"
  then show "toggleCell x y g prev = prev\<lparr>cells := cells g\<rparr>"
    by (rule toggleCell_outside_buffer)
next
  assume a: "0 \<le> x \<and> x < width g \<and> 0 \<le> y \<and> y < height g \<and>
    length (cells g) = nat (width g * height g)"
  then have "0 \<le> y * width g + x \<and> y * width g + x < width g * height g"
    by (intro index_bound) simp_all
  then show "toggleCell x y g g =
        g\<lparr>cells := (cells g)[nat (y * width g + x) :=
                     (if cells g ! nat (y * width g + x) = 1 then 0 else 1)]\<rparr>"
    using a by (intro toggleCell_in_buffer) simp_all
next
  assume "set (cells g) \<subseteq> {0, 1}"
  then show "toggleCell x y (toggleCell x y g g) (toggleCell x y g g) = g"
    by (rule toggleCell_twice)
next
  show "toggleCell x' y' g (toggleCell x y g prev) = toggleCell x' y' g prev"
    by (rule toggleCell_same_callback)
next
  show "snd (handleMouseDown canvas g e gridX gridY c) = None \<or>
    snd (handleMouseDown canvas g e gridX gridY c) = Some (gridX, gridY) \<and>
      0 \<le> gridX \<and> gridX < width g \<and> 0 \<le> gridY \<and> gridY < height g"
    using handleMouseDown_call [of canvas g e gridX gridY c]
    by (auto simp: getGridCoords_def split: if_splits)
next
  show "snd (handleMouseMove canvas g gridX gridY c) = None \<or>
    snd (handleMouseMove canvas g gridX gridY c) = Some (gridX, gridY) \<and>
      0 \<le> gridX \<and> gridX < width g \<and> 0 \<le> gridY \<and> gridY < height g"
    using handleMouseMove_call [of canvas g gridX gridY c]
    by (auto simp: getGridCoords_def split: if_splits)
next
  show "snd (handleClick canvas g gridX gridY c) = None \<or>
    snd (handleClick canvas g gridX gridY c) = Some (gridX, gridY) \<and>
      0 \<le> gridX \<and> gridX < width g \<and> 0 \<le> gridY \<and> gridY < height g"
    using handleClick_call [of canvas g gridX gridY c]
    by (auto simp: getGridCoords_def split: if_splits)
next
  assume out: "gridX < 0 \<or> width g \<le> gridX \<or> gridY < 0 \<or> height g \<le> gridY"
  then have n: "getGridCoords canvas g gridX gridY = None"
    by (rule getGridCoords_outside)
  show "snd (handleMouseDown canvas g e gridX gridY c) = None"
    using handleMouseDown_call [of canvas g e gridX gridY c] n by auto
  show "snd (handleMouseMove canvas g gridX gridY c) = None"
    using handleMouseMove_call [of canvas g gridX gridY c] n by auto
  show "snd (handleClick canvas g gridX gridY c) = None"
    using handleClick_call [of canvas g gridX gridY c] n by auto
qed

theorem toggleCell_flip_witness:
  "toggleCell 1 2 \<lparr>width = 3, height = 3, cells = [0, 0, 0, 0, 0, 0, 0, 0, 0]\<rparr>
     \<lparr>width = 3, height = 3, cells = [1, 0, 0, 0, 0, 0, 0, 0, 0]\<rparr> =
     \<lparr>width = 3, height = 3, cells = [0, 0, 0, 0, 0, 0, 0, 1, 0]\<rparr> \<and>
   toggleCell 1 3 \<lparr>width = 3, height = 3, cells = [0, 0, 0, 0, 0, 0, 0, 0, 0]\<rparr>
     \<lparr>width = 3, height = 3, cells = [1, 0, 0, 0, 0, 0, 0, 0, 0]\<rparr> =
     \<lparr>width = 3, height = 3, cells = [0, 0, 0, 0, 0, 0, 0, 0, 0]\<rparr> \<and>
   toggleCell 1 2 \<lparr>width = 3, height = 3, cells = [0, 0, 0, 0, 0, 0, 0, 0, 0]\<rparr>
     \<lparr>width = 3, height = 3, cells = [0, 0, 0, 0, 0, 0, 0, 0, 0]\<rparr> =
     \<lparr>width = 3, height = 3, cells = [0, 0, 0, 0, 0, 0, 0, 1, 0]\<rparr> \<and>
   toggleCell 1 2 \<lparr>width = 3, height = 3, cells = [0, 0, 0, 0, 0, 0, 0, 1, 0]\<rparr>
     \<lparr>width = 3, height = 3, cells = [0, 0, 0, 0, 0, 0, 0, 1, 0]\<rparr> =
     \<lparr>width = 3, height = 3, cells = [0, 0, 0, 0, 0, 0, 0, 0, 0]\<rparr> \<and>
   toggleCell 1 2 \<lparr>width = 3, height = 3, cells = [0, 0, 0, 0, 0, 0, 0, 0, 0]\<rparr>
     \<lparr>width = 3, height = 3, cells = [0, 0, 0, 0, 0, 0, 0, 1, 0]\<rparr> =
     \<lparr>width = 3, height = 3, cells = [0, 0, 0, 0, 0, 0, 0, 1, 0]\<rparr> \<and>
   snd (handleClick True \<lparr>width = 3, height = 3, cells = [0, 0, 0, 0, 0, 0, 0, 0, 0]\<rparr> 3 0
          \<lparr>isDrawing = False, drawMode = True, isDraggingRef = False\<rparr>) = None \<and>
   snd (handleMouseDown True \<lparr>width = 3, height = 3, cells = [0, 0, 0, 0, 0, 0, 0, 0, 0]\<rparr>
          \<lparr>button = 0, ctrlKey = False, altKey = False, metaKey = False, shiftKey = False\<rparr> 3 0
          \<lparr>isDrawing = False, drawMode = False, isDraggingRef = False\<rparr>) = None \<and>
   snd (handleMouseMove True \<lparr>width = 3, height = 3, cells = [0, 0, 0, 0, 0, 0, 0, 0, 0]\<rparr> 3 0
          \<lparr>isDrawing = True, drawMode = True, isDraggingRef = False\<rparr>) = None"
proof -
  let ?grid = "\<lparr>width = 3, height = 3, cells = [0, 0, 0, 0, 0, 0, 0, 0, 0 :: byte]\<rparr>"
  let ?older = "\<lparr>width = 3, height = 3, cells = [1, 0, 0, 0, 0, 0, 0, 0, 0 :: byte]\<rparr>"
  let ?flipped = "\<lparr>width = 3, height = 3, cells = [0, 0, 0, 0, 0, 0, 0, 1, 0 :: byte]\<rparr>"
  let ?ev = "\<lparr>button = 0, ctrlKey = False, altKey = False, metaKey = False, shiftKey = False\<rparr>"
  let ?ready = "\<lparr>isDrawing = False, drawMode = True, isDraggingRef = False\<rparr>"
  let ?idle = "\<lparr>isDrawing = False, drawMode = False, isDraggingRef = False\<rparr>"
  let ?drawing = "\<lparr>isDrawing = True, drawMode = True, isDraggingRef = False\<rparr>"
  have inside_buffer: "0 \<le> 2 * width ?grid + 1 \<and> 2 * width ?grid + 1 < int (length (cells ?grid))"
    by simp
  have outside_buffer: "3 * width ?grid + 1 < 0 \<or> int (length (cells ?grid)) \<le> 3 * width ?grid + 1"
    by simp
  have inside: "0 \<le> (1::int) \<and> 1 < width ?grid \<and> 0 \<le> (2::int) \<and> 2 < height ?grid \<and>
      length (cells ?grid) = nat (width ?grid * height ?grid)"
    by simp
  have bits: "set (cells ?grid) \<subseteq> {0, 1}"
    by simp
  have right: "3 < 0 \<or> width ?grid \<le> 3 \<or> (0::int) < 0 \<or> height ?grid \<le> 0"
    by simp
  have "toggleCell 1 2 ?grid ?older =
      ?older\<lparr>cells := (cells ?grid)[nat (2 * width ?grid + 1) :=
                     (if cells ?grid ! nat (2 * width ?grid + 1) = 1 then 0 else 1)]\<rparr>"
    using toggleCell_flip [where x = 1 and y = 2 and g = ?grid and prev = ?older, THEN conjunct1]
      inside_buffer by (rule mp)
  then have stale: "toggleCell 1 2 ?grid ?older = ?flipped"
    by simp
  have "toggleCell 1 3 ?grid ?older = ?older\<lparr>cells := cells ?grid\<rparr>"
    using toggleCell_flip [where x = 1 and y = 3 and g = ?grid and prev = ?older,
        THEN conjunct2, THEN conjunct1] outside_buffer by (rule mp)
  then have beyond: "toggleCell 1 3 ?grid ?older = ?grid"
    by simp
  have "toggleCell 1 2 ?grid ?grid =
      ?grid\<lparr>cells := (cells ?grid)[nat (2 * width ?grid + 1) :=
                     (if cells ?grid ! nat (2 * width ?grid + 1) = 1 then 0 else 1)]\<rparr>"
    using toggleCell_flip [where x = 1 and y = 2 and g = ?grid,
        THEN conjunct2, THEN conjunct2, THEN conjunct1] inside by (rule mp)
  then have once: "toggleCell 1 2 ?grid ?grid = ?flipped"
    by simp
  have "toggleCell 1 2 (toggleCell 1 2 ?grid ?grid) (toggleCell 1 2 ?grid ?grid) = ?grid"
    using toggleCell_flip [where x = 1 and y = 2 and g = ?grid,
        THEN conjunct2, THEN conjunct2, THEN conjunct2, THEN conjunct1] bits by (rule mp)
  then have restored: "toggleCell 1 2 ?flipped ?flipped = ?grid"
    unfolding once .
  have "toggleCell 1 2 ?grid (toggleCell 1 2 ?grid ?grid) = toggleCell 1 2 ?grid ?grid"
    by (rule toggleCell_flip [where x = 1 and y = 2 and x' = 1 and y' = 2 and g = ?grid and prev = ?grid,
        THEN conjunct2, THEN conjunct2, THEN conjunct2, THEN conjunct2, THEN conjunct1])
  then have same: "toggleCell 1 2 ?grid ?flipped = ?flipped"
    unfolding once .
  have click: "snd (handleClick True ?grid 3 0 ?ready) = None"
    using toggleCell_flip [where canvas = True and g = ?grid and gridX = 3 and gridY = 0 and c = ?ready,
        THEN conjunct2, THEN conjunct2, THEN conjunct2, THEN conjunct2, THEN conjunct2,
        THEN conjunct2, THEN conjunct2, THEN conjunct2, THEN mp, OF right]
    by simp
  have down: "snd (handleMouseDown True ?grid ?ev 3 0 ?idle) = None"
    using toggleCell_flip [where canvas = True and g = ?grid and gridX = 3 and gridY = 0 and c = ?idle and e = ?ev,
        THEN conjunct2, THEN conjunct2, THEN conjunct2, THEN conjunct2, THEN conjunct2,
        THEN conjunct2, THEN conjunct2, THEN conjunct2, THEN mp, OF right]
    by simp
  have move: "snd (handleMouseMove True ?grid 3 0 ?drawing) = None"
    using toggleCell_flip [where canvas = True and g = ?grid and gridX = 3 and gridY = 0 and c = ?drawing,
        THEN conjunct2, THEN conjunct2, THEN conjunct2, THEN conjunct2, THEN conjunct2,
        THEN conjunct2, THEN conjunct2, THEN conjunct2, THEN mp, OF right]
    by simp
  show ?thesis
    using stale beyond once restored same click down move by (intro conjI)
qed

section \<open>Formatting and parsing rules\<close>

subsection \<open>The order of sort\<close>

lemma of_char_digit: "n < 10 \<Longrightarrow> of_char (char_of (48 + n)) = 48 + (n::nat)"
  by simp

lemma toString_digit: "0 \<le> d \<Longrightarrow> d \<le> 9 \<Longrightarrow> toString d = [char_of (48 + nat d)]"
  by (simp add: toString_def)

lemma toString_digit_le:
  assumes "0 \<le> a" "a \<le> 9" "0 \<le> b" "b \<le> 9"
  shows "toString a \<le> toString b \<longleftrightarrow> a \<le> b"
proof -
  have "nat a < 10" "nat b < 10" using assms by simp_all
  then have "of_char (char_of (48 + nat a)) = 48 + nat a"
    "of_char (char_of (48 + nat b)) = 48 + nat b"
    by (simp_all only: of_char_digit)
  then have "char_of (48 + nat a) \<le> char_of (48 + nat b) \<longleftrightarrow> nat a \<le> nat b"
    and "char_of (48 + nat a) = char_of (48 + nat b) \<longleftrightarrow> nat a = nat b"
    by (simp add: less_eq_char_def, metis add_left_cancel)
  then show ?thesis
    using assms by (auto simp: toString_digit less_le)
qed

lemma js_sort_mset: "mset (js_sort xs) = mset xs"
  by (simp add: js_sort_def)

lemma js_sort_set: "set (js_sort xs) = set xs"
  by (simp add: js_sort_def)

lemma js_sort_sorted: "sorted (map toString (js_sort xs))"
  by (simp add: js_sort_def)

lemma js_sort_digits_sorted:
  assumes "set xs \<subseteq> {0..9}"
  shows "sorted (js_sort xs)"
proof -
  have "sorted_wrt (\<lambda>a b. toString a \<le> toString b) (js_sort xs)"
    using js_sort_sorted [of xs] by (simp add: sorted_map)
  moreover have "a \<le> b"
    if "a \<in> set (js_sort xs)" "b \<in> set (js_sort xs)" "toString a \<le> toString b" for a b
  proof -
    have "a \<in> {0..9}" "b \<in> {0..9}"
      using that(1,2) assms by (auto simp: js_sort_set)
    then show ?thesis
      using that(3) toString_digit_le [of a b] by simp
  qed
  ultimately show ?thesis
    by (rule sorted_wrt_mono_rel [rotated])
qed

lemma formatRuleString_eq:
  "formatRuleString r =
     (''B'' @ join (js_sort (birth r)) @ ''/S'' @ join (js_sort (survival r)),
      \<lparr>birth = js_sort (birth r), survival = js_sort (survival r)\<rparr>)"
  by (simp add: formatRuleString_def Let_def)

text \<open>
  Claim C10. After \<open>formatRuleString(r)\<close> the two arrays of \<open>r\<close> hold what
  \<open>sort\<close> left in them: the same elements, in the ascending order of their strings,
  which for the digits 0 to 9 is the ascending order of the numbers; the string that is
  returned joins the sorted arrays. The order in which the arrays were given is lost.
\<close>

theorem formatRuleString_sorts_in_place:
  "snd (formatRuleString r) = \<lparr>birth = js_sort (birth r), survival = js_sort (survival r)\<rparr> \<and>
   mset (birth (snd (formatRuleString r))) = mset (birth r) \<and>
   mset (survival (snd (formatRuleString r))) = mset (survival r) \<and>
   sorted (map toString (birth (snd (formatRuleString r)))) \<and>
   sorted (map toString (survival (snd (formatRuleString r)))) \<and>
   (set (birth r) \<subseteq> {0..9} \<longrightarrow> sorted (birth (snd (formatRuleString r)))) \<and>
   (set (survival r) \<subseteq> {0..9} \<longrightarrow> sorted (survival (snd (formatRuleString r)))) \<and>
   fst (formatRuleString r) =
     ''B'' @ join (birth (snd (formatRuleString r))) @ ''/S'' @
       join (survival (snd (formatRuleString r)))"
proof -
  have after: "snd (formatRuleString r) =
      \<lparr>birth = js_sort (birth r), survival = js_sort (survival r)\<rparr>"
    by (simp add: formatRuleString_eq)
  have same: "mset (js_sort (birth r)) = mset (birth r)"
    "mset (js_sort (survival r)) = mset (survival r)"
    by (rule js_sort_mset)+
  have by_string: "sorted (map toString (js_sort (birth r)))"
    "sorted (map toString (js_sort (survival r)))"
    by (rule js_sort_sorted)+
  have by_number: "set (birth r) \<subseteq> {0..9} \<longrightarrow> sorted (js_sort (birth r))"
    "set (survival r) \<subseteq> {0..9} \<longrightarrow> sorted (js_sort (survival r))"
    by (simp_all add: js_sort_digits_sorted)
  have joined: "fst (formatRuleString r) =
      ''B'' @ join (js_sort (birth r)) @ ''/S'' @ join (js_sort (survival r))"
    by (simp add: formatRuleString_eq)
  show ?thesis
    unfolding after using same by_string by_number joined by simp
qed

theorem formatRuleString_sorts_in_place_witness:
  "set [3, 1] \<subseteq> {0..9 :: int} \<and> set [3, 2, 1] \<subseteq> {0..9 :: int} \<and>
   sorted (birth (snd (formatRuleString \<lparr>birth = [3, 1], survival = [3, 2, 1]\<rparr>))) \<and>
   sorted (survival (snd (formatRuleString \<lparr>birth = [3, 1], survival = [3, 2, 1]\<rparr>))) \<and>
   snd (formatRuleString \<lparr>birth = [3, 1], survival = [3, 2, 1]\<rparr>) =
     \<lparr>birth = [1, 3], survival = [1, 2, 3]\<rparr> \<and>
   fst (formatRuleString \<lparr>birth = [3, 1], survival = [3, 2, 1]\<rparr>) = ''B13/S123''"
proof -
  let ?r = "\<lparr>birth = [3, 1], survival = [3, 2, 1]\<rparr>"
  have b: "set (birth ?r) \<subseteq> {0..9}" and s: "set (survival ?r) \<subseteq> {0..9}"
    by simp_all
  have sb: "sorted (birth (snd (formatRuleString ?r)))"
    using formatRuleString_sorts_in_place [of ?r] b by blast
  have ss: "sorted (survival (snd (formatRuleString ?r)))"
    using formatRuleString_sorts_in_place [of ?r] s by blast
  have e: "formatRuleString ?r = (''B13/S123'', \<lparr>birth = [1, 3], survival = [1, 2, 3]\<rparr>)"
    by code_simp
  show ?thesis using b s sb ss e by simp
qed

subsection \<open>What parseRuleString accepts\<close>

lemma trim_id:
  assumes "s \<noteq> []" "\<not> isWhiteSpace (hd s)" "\<not> isWhiteSpace (last s)"
  shows "trim s = s"
proof -
  have "dropWhile isWhiteSpace s = s"
    using assms(1,2) by (cases s) simp_all
  moreover have "dropWhile isWhiteSpace (rev s) = rev s"
    using assms(1,3) by (cases "rev s") (simp_all add: hd_rev [symmetric])
  ultimately show ?thesis by (simp add: trim_def)
qed

lemma toUpperCase_id:
  assumes "\<forall>c \<in> set s. \<not> (97 \<le> (of_char c :: nat) \<and> (of_char c :: nat) \<le> 122)"
  shows "toUpperCase s = s"
  unfolding toUpperCase_def using assms by (intro map_idI) auto

lemma match_rule_digits:
  assumes "d1 \<noteq> []" "d2 \<noteq> []" "list_all isDigit d1" "list_all isDigit d2"
  shows "match_rule (''B'' @ d1 @ ''/S'' @ d2) = Some (d1, d2)"
proof -
  have nd: "\<not> isDigit CHR ''/''" by (simp add: isDigit_def)
  have t: "takeWhile isDigit (d1 @ CHR ''/'' # CHR ''S'' # d2) = d1"
    using assms(3) nd by (simp add: takeWhile_tail list_all_iff)
  have d: "dropWhile isDigit (d1 @ CHR ''/'' # CHR ''S'' # d2) = CHR ''/'' # CHR ''S'' # d2"
    using assms(3) nd by (simp add: dropWhile_append2 list_all_iff)
  show ?thesis
    using assms by (simp add: match_rule_def t d)
qed

lemma match_rule_Some:
  assumes "match_rule s = Some (d1, d2)"
  shows "s = ''B'' @ d1 @ ''/S'' @ d2 \<and> d1 \<noteq> [] \<and> d2 \<noteq> [] \<and>
         list_all isDigit d1 \<and> list_all isDigit d2"
proof (cases s)
  case Nil
  then show ?thesis using assms by (simp add: match_rule_def)
next
  case (Cons c rest)
  have c: "c = CHR ''B''"
    using assms Cons by (simp add: match_rule_def split: if_splits)
  have g1: "takeWhile isDigit rest \<noteq> []"
    using assms Cons c by (auto simp: match_rule_def Let_def split: if_splits)
  obtain g2 where r1: "dropWhile isDigit rest = CHR ''/'' # CHR ''S'' # g2"
    and g2: "g2 \<noteq> []" "list_all isDigit g2"
    and res: "(d1, d2) = (takeWhile isDigit rest, g2)"
    using assms Cons c g1
    by (auto simp: match_rule_def Let_def split: if_splits list.splits)
  have d1: "d1 = takeWhile isDigit rest" and d2: "d2 = g2"
    using res by simp_all
  have "rest = takeWhile isDigit rest @ dropWhile isDigit rest"
    by simp
  then have rest: "rest = d1 @ CHR ''/'' # CHR ''S'' # d2"
    unfolding r1 d1 [symmetric] d2 [symmetric] .
  have "\<forall>x \<in> set (takeWhile isDigit rest). isDigit x"
    by (meson set_takeWhileD)
  then have "list_all isDigit d1"
    by (simp add: list_all_iff d1)
  moreover have "d1 \<noteq> []" using g1 d1 by simp
  moreover have "d2 \<noteq> []" "list_all isDigit d2" using g2 d2 by simp_all
  moreover have "s = ''B'' @ d1 @ ''/S'' @ d2"
    using Cons c rest by simp
  ultimately show ?thesis by blast
qed

lemma parseRuleString_accepts:
  "parseRuleString s = Inr r \<longleftrightarrow>
     (\<exists>d1 d2. toUpperCase (trim s) = ''B'' @ d1 @ ''/S'' @ d2 \<and> d1 \<noteq> [] \<and> d2 \<noteq> [] \<and>
        list_all isDigit d1 \<and> list_all isDigit d2 \<and>
        r = \<lparr>birth = map Number d1, survival = map Number d2\<rparr>)"
proof
  assume p: "parseRuleString s = Inr r"
  then obtain m where m: "match_rule (toUpperCase (trim s)) = Some m"
    by (auto simp: parseRuleString_def Let_def split: option.splits)
  then have "match_rule (toUpperCase (trim s)) = Some (fst m, snd m)" by simp
  then have "toUpperCase (trim s) = ''B'' @ fst m @ ''/S'' @ snd m \<and> fst m \<noteq> [] \<and> snd m \<noteq> [] \<and>
         list_all isDigit (fst m) \<and> list_all isDigit (snd m)"
    by (rule match_rule_Some)
  moreover have "r = \<lparr>birth = map Number (fst m), survival = map Number (snd m)\<rparr>"
    using p m by (simp add: parseRuleString_def Let_def)
  ultimately show "\<exists>d1 d2. toUpperCase (trim s) = ''B'' @ d1 @ ''/S'' @ d2 \<and> d1 \<noteq> [] \<and> d2 \<noteq> [] \<and>
        list_all isDigit d1 \<and> list_all isDigit d2 \<and>
        r = \<lparr>birth = map Number d1, survival = map Number d2\<rparr>"
    by blast
next
  assume "\<exists>d1 d2. toUpperCase (trim s) = ''B'' @ d1 @ ''/S'' @ d2 \<and> d1 \<noteq> [] \<and> d2 \<noteq> [] \<and>
        list_all isDigit d1 \<and> list_all isDigit d2 \<and>
        r = \<lparr>birth = map Number d1, survival = map Number d2\<rparr>"
  then obtain d1 d2 where u: "toUpperCase (trim s) = ''B'' @ d1 @ ''/S'' @ d2"
    and d: "d1 \<noteq> []" "d2 \<noteq> []" "list_all isDigit d1" "list_all isDigit d2"
    and r: "r = \<lparr>birth = map Number d1, survival = map Number d2\<rparr>"
    by blast
  have "match_rule (toUpperCase (trim s)) = Some (d1, d2)"
    unfolding u using d by (rule match_rule_digits)
  then show "parseRuleString s = Inr r"
    by (simp add: parseRuleString_def Let_def r)
qed

lemma parseRuleString_rejects:
  "parseRuleString s = Inl e \<Longrightarrow> e = InvalidRuleFormat"
  by (auto simp: parseRuleString_def Let_def split: option.splits)

subsection \<open>Formatting and parsing again\<close>

lemma join_digits:
  assumes "set xs \<subseteq> {0..9}"
  shows "join xs = map (\<lambda>d. char_of (48 + nat d)) xs"
  using assms unfolding join_def
  by (induction xs) (simp_all add: toString_digit)

lemma Number_digit: "0 \<le> d \<Longrightarrow> d \<le> 9 \<Longrightarrow> Number (char_of (48 + nat d)) = d"
  by (simp add: Number_def)

lemma isDigit_digit: "0 \<le> d \<Longrightarrow> d \<le> 9 \<Longrightarrow> isDigit (char_of (48 + nat d))"
  by (simp add: isDigit_def)

text \<open>
  When neither side is empty, a rule of digits survives formatting and parsing, up to
  the order that \<open>sort\<close> gives its arrays.
\<close>

lemma roundtrip_nonempty:
  assumes "set (birth r) \<subseteq> {0..9}" "set (survival r) \<subseteq> {0..9}"
    and "birth r \<noteq> []" "survival r \<noteq> []"
  shows "parseRuleString (fst (formatRuleString r)) =
           Inr \<lparr>birth = js_sort (birth r), survival = js_sort (survival r)\<rparr>"
proof -
  define bs where "bs = js_sort (birth r)"
  define ss where "ss = js_sort (survival r)"
  define d1 where "d1 = map (\<lambda>d. char_of (48 + nat d)) bs"
  define d2 where "d2 = map (\<lambda>d. char_of (48 + nat d)) ss"
  have bs: "set bs \<subseteq> {0..9}" "bs \<noteq> []"
    using assms(1,3) js_sort_set [of "birth r"] js_sort_mset [of "birth r"]
    by (auto simp: bs_def)
  have ss: "set ss \<subseteq> {0..9}" "ss \<noteq> []"
    using assms(2,4) js_sort_set [of "survival r"] js_sort_mset [of "survival r"]
    by (auto simp: ss_def)
  have str: "fst (formatRuleString r) = ''B'' @ d1 @ ''/S'' @ d2"
    using bs ss by (simp add: formatRuleString_eq bs_def [symmetric] ss_def [symmetric]
        join_digits d1_def d2_def)
  have dg: "list_all isDigit d1" "list_all isDigit d2" "d1 \<noteq> []" "d2 \<noteq> []"
    using bs ss by (auto simp: d1_def d2_def list_all_iff isDigit_digit)
  have lastd: "isDigit (last (''B'' @ d1 @ ''/S'' @ d2))"
    using dg by (simp add: list_all_iff)
  have ws: "\<not> isWhiteSpace c" if "isDigit c" for c
    using that by (auto simp: isDigit_def isWhiteSpace_def)
  have tr: "trim (''B'' @ d1 @ ''/S'' @ d2) = ''B'' @ d1 @ ''/S'' @ d2"
    using ws [OF lastd] by (intro trim_id) (simp_all add: isWhiteSpace_def)
  have lower: "\<not> (97 \<le> (of_char c :: nat) \<and> (of_char c :: nat) \<le> 122)"
    if "c \<in> set (''B'' @ d1 @ ''/S'' @ d2)" for c
    using that dg by (auto simp: list_all_iff isDigit_def)
  have up: "toUpperCase (''B'' @ d1 @ ''/S'' @ d2) = ''B'' @ d1 @ ''/S'' @ d2"
    using lower by (intro toUpperCase_id) blast
  have m: "match_rule (''B'' @ d1 @ ''/S'' @ d2) = Some (d1, d2)"
    using dg by (intro match_rule_digits)
  have n1: "map Number d1 = bs"
    using bs(1) unfolding d1_def by (induction bs) (simp_all add: Number_digit)
  have n2: "map Number d2 = ss"
    using ss(1) unfolding d2_def by (induction ss) (simp_all add: Number_digit)
  show ?thesis
    by (simp add: str parseRuleString_def tr up m n1 n2 Let_def bs_def [symmetric]
        ss_def [symmetric] del: append.simps)
qed

text \<open>
  Claim C6 at the rule Seeds, birth on 2 and no survival: \<open>formatRuleString\<close> gives
  \<open>B2/S\<close>, which \<open>parseRuleString\<close> rejects, since \<open>\d+\<close> asks for a digit
  after \<open>S\<close>.
\<close>

theorem parse_format_seeds:
  "formatRuleString \<lparr>birth = [2], survival = []\<rparr> = (''B2/S'', \<lparr>birth = [2], survival = []\<rparr>) \<and>
   parseRuleString (fst (formatRuleString \<lparr>birth = [2], survival = []\<rparr>)) = Inl InvalidRuleFormat"
  by code_simp

text \<open>
  Claim C7 at the string \<open>B2/S\<close>, which the tests of the parser expect to parse to
  birth 2 and an empty survival side: \<open>parseRuleString\<close> throws. A string with a
  digit on each side parses.
\<close>

theorem parse_empty_survival:
  "parseRuleString ''B2/S'' = Inl InvalidRuleFormat \<and>
   parseRuleString ''B3/S23'' = Inr \<lparr>birth = [3], survival = [2, 3]\<rparr>"
  by code_simp

section \<open>The stepping protocol\<close>

lemma answered_step: "answered L (SIMULATION_STEP cs w h r)"
  by (simp add: answered_def worker_listener_def)

lemma answered_rule: "answered L (UPDATE_RULE r)"
  by (simp add: answered_def worker_listener_def)

lemma answered_init: "0 \<le> w * h \<Longrightarrow> w * h \<le> int L \<Longrightarrow> answered L (INIT_GRID w h ip)"
  by (simp add: answered_def worker_listener_def createInitialGrid_fold)

lemma inv_mounted: "protocol_inv L (mounted L n worker_ok)"
  by (simp add: protocol_inv_def mounted_def new_Uint8Array_def outstanding_def answered_init
      allocated_def)

lemma inv_stepSimulation: "protocol_inv L s \<Longrightarrow> protocol_inv L (stepSimulation now post_ok g cfg s)"
  by (auto simp: protocol_inv_def stepSimulation_def outstanding_def stepMessage_def
      answered_step Let_def split: if_splits)

lemma inv_step: "protocol_inv L s \<Longrightarrow> protocol_inv L (step post_ok g cfg s)"
  by (auto simp: protocol_inv_def step_def outstanding_def stepMessage_def answered_step
      split: if_splits)

lemma inv_reset: "protocol_inv L s \<Longrightarrow> protocol_inv L (reset post_ok (gridState s) s)"
  by (auto simp: protocol_inv_def reset_def outstanding_def answered_init allocated_def
      split: if_splits)

lemma inv_updateRule: "protocol_inv L s \<Longrightarrow> protocol_inv L (updateRule r post_ok s)"
  by (auto simp: protocol_inv_def updateRule_def outstanding_def answered_rule Let_def
      split: if_splits)

lemma inv_toggleCell:
  "protocol_inv L s \<Longrightarrow> protocol_inv L (s\<lparr>gridState := toggleCell x y g (gridState s)\<rparr>)"
  by (simp add: protocol_inv_def outstanding_def toggleCell_def Let_def allocated_def)

lemma inv_WorkerDone: "protocol_inv L s \<Longrightarrow> protocol_inv L (fire L s WorkerDone)"
proof (cases "posted s")
  case Nil
  then show "protocol_inv L s \<Longrightarrow> ?thesis" by simp
next
  case (Cons m ms)
  assume inv: "protocol_inv L s"
  then have "answered L m" using Cons by (simp add: protocol_inv_def)
  then obtain r where r: "worker_listener L m = Inr r"
    by (cases "worker_listener L m") (simp_all add: answered_def)
  show ?thesis
  proof (cases m)
    case (SIMULATION_STEP cs w h ru)
    then have "r = SIMULATION_RESULT (simulationStep cs w h ru)"
      using r by (simp add: worker_listener_def)
    then show ?thesis
      using inv Cons r SIMULATION_STEP
      by (simp add: protocol_inv_def outstanding_def onmessage_def allocated_def split: if_splits)
  next
    case (INIT_GRID w h ip)
    then obtain g where "r = GRID_INITIALIZED g"
      using r by (auto simp: worker_listener_def split: sum.splits)
    then show ?thesis
      using inv Cons r INIT_GRID
      by (simp add: protocol_inv_def outstanding_def onmessage_def allocated_def)
  next
    case (UPDATE_RULE ru)
    then have "r = RULE_UPDATED ru"
      using r by (simp add: worker_listener_def)
    then show ?thesis
      using inv Cons r UPDATE_RULE
      by (simp add: protocol_inv_def outstanding_def onmessage_def)
  qed
qed

lemma inv_WorkerFailed: "protocol_inv L s \<Longrightarrow> protocol_inv L (fire L s WorkerFailed)"
  by (auto simp: protocol_inv_def outstanding_def onerror_def
      split: list.splits WorkerMessage.splits if_splits)

lemma inv_fire: "protocol_inv L s \<Longrightarrow> protocol_inv L (fire L s e)"
proof (cases e)
  case (Frame now post_ok cs cfg)
  then show "protocol_inv L s \<Longrightarrow> ?thesis" by (simp add: inv_stepSimulation)
next
  case (Step post_ok cs cfg)
  then show "protocol_inv L s \<Longrightarrow> ?thesis" by (simp add: inv_step)
next
  case (Reset post_ok)
  then show "protocol_inv L s \<Longrightarrow> ?thesis" by (simp add: inv_reset)
next
  case (UpdateRule r post_ok)
  then show "protocol_inv L s \<Longrightarrow> ?thesis" by (simp add: inv_updateRule)
next
  case TogglePlayPause
  then show "protocol_inv L s \<Longrightarrow> ?thesis"
    by (simp add: protocol_inv_def outstanding_def togglePlayPause_def)
next
  case (UpdateSpeed sp)
  then show "protocol_inv L s \<Longrightarrow> ?thesis"
    by (simp add: protocol_inv_def outstanding_def updateSpeed_def)
next
  case (ToggleCell x y cs)
  then show "protocol_inv L s \<Longrightarrow> ?thesis" by (simp add: inv_toggleCell)
next
  case WorkerDone
  then show "protocol_inv L s \<Longrightarrow> ?thesis" by (simp only: inv_WorkerDone)
next
  case WorkerFailed
  then show "protocol_inv L s \<Longrightarrow> ?thesis" by (simp only: inv_WorkerFailed)
qed

lemma inv_run: "protocol_inv L s \<Longrightarrow> protocol_inv L (run L s evs)"
  unfolding run_def by (induction evs arbitrary: s) (simp_all add: inv_fire)

lemma no_request_while_processing:
  "isProcessingRef s \<Longrightarrow>
   posted (stepSimulation now post_ok g cfg s) = posted s \<and> posted (step post_ok g cfg s) = posted s"
  by (simp add: stepSimulation_def step_def)

text \<open>
  Claim C3. In every state that the hook reaches from mounting, in an engine of any
  limit, by any sequence of frames, manual steps, resets, rule and speed changes, cell
  toggles, answers of the worker and failures of a step in the worker, whatever the
  callbacks had captured, at most one step request is outstanding; the in-flight flag
  is set exactly when one is; and while the flag is set neither the animation callback
  nor \<open>step\<close> posts anything. The flag is a ref, the same object in every render; the
  proof uses neither the content of a step message nor the conditions on
  \<open>isRunning\<close> and on the time.
\<close>

theorem one_step_request_in_flight:
  "outstanding (run L (mounted L n worker_ok) evs) \<le> 1 \<and>
   (isProcessingRef (run L (mounted L n worker_ok) evs) \<longleftrightarrow>
      outstanding (run L (mounted L n worker_ok) evs) = 1) \<and>
   (isProcessingRef (run L (mounted L n worker_ok) evs) \<longrightarrow>
      posted (stepSimulation now post_ok g cfg (run L (mounted L n worker_ok) evs)) =
        posted (run L (mounted L n worker_ok) evs) \<and>
      posted (step post_ok g cfg (run L (mounted L n worker_ok) evs)) =
        posted (run L (mounted L n worker_ok) evs))"
proof -
  have "protocol_inv L (run L (mounted L n worker_ok) evs)"
    using inv_mounted by (rule inv_run)
  then show ?thesis
    using no_request_while_processing [of "run L (mounted L n worker_ok) evs" now post_ok g cfg]
    by (simp add: protocol_inv_def split: if_splits)
qed

theorem one_step_request_in_flight_witness:
  "isProcessingRef (run 4294967295 (mounted 4294967295 2 True) [Step True [1, 0, 0, 1] DEFAULT_CONFIG]) \<and>
   outstanding (run 4294967295 (mounted 4294967295 2 True) [Step True [1, 0, 0, 1] DEFAULT_CONFIG]) = 1 \<and>
   posted (stepSimulation 50 True \<lparr>width = 2, height = 2, cells = [0, 0, 0, 0]\<rparr>
             (DEFAULT_CONFIG\<lparr>isRunning := True\<rparr>)
             (run 4294967295 (mounted 4294967295 2 True) [Step True [1, 0, 0, 1] DEFAULT_CONFIG])) =
     posted (run 4294967295 (mounted 4294967295 2 True) [Step True [1, 0, 0, 1] DEFAULT_CONFIG]) \<and>
   posted (step True \<lparr>width = 2, height = 2, cells = [0, 0, 0, 0]\<rparr> DEFAULT_CONFIG
             (run 4294967295 (mounted 4294967295 2 True) [Step True [1, 0, 0, 1] DEFAULT_CONFIG])) =
     posted (run 4294967295 (mounted 4294967295 2 True) [Step True [1, 0, 0, 1] DEFAULT_CONFIG])"
proof -
  have busy: "isProcessingRef
      (run 4294967295 (mounted 4294967295 2 True) [Step True [1, 0, 0, 1] DEFAULT_CONFIG])"
    by (simp add: run_def mounted_def new_Uint8Array_def step_def)
  then show ?thesis
    using one_step_request_in_flight [of 4294967295 2 True "[Step True [1, 0, 0, 1] DEFAULT_CONFIG]"
        50 True "\<lparr>width = 2, height = 2, cells = [0, 0, 0, 0]\<rparr>" "DEFAULT_CONFIG\<lparr>isRunning := True\<rparr>"]
      one_step_request_in_flight [of 4294967295 2 True "[Step True [1, 0, 0, 1] DEFAULT_CONFIG]"
        50 True "\<lparr>width = 2, height = 2, cells = [0, 0, 0, 0]\<rparr>" DEFAULT_CONFIG]
    by blast
qed

subsection \<open>A reset and a step in flight\<close>

lemma run_append: "run L s (evs @ evs') = run L (run L s evs) evs'"
  by (simp add: run_def)

lemma fire_step_result:
  "posted s = SIMULATION_STEP cs w h r # ms \<Longrightarrow>
   fire L s WorkerDone =
     s\<lparr>gridState := (gridState s)\<lparr>cells := simulationStep cs w h r\<rparr>,
       isProcessingRef := False, posted := ms\<rparr>"
  by (simp add: worker_listener_def onmessage_def)

lemma fire_init_result:
  "posted s = INIT_GRID w h None # ms \<Longrightarrow> 0 \<le> w * h \<Longrightarrow> w * h \<le> int L \<Longrightarrow>
   fire L s WorkerDone =
     s\<lparr>gridState := (gridState s)\<lparr>cells := replicate (nat (w * h)) 0\<rparr>, posted := ms\<rparr>"
  by (simp add: worker_listener_def onmessage_def createInitialGrid_fold positions_def)

text \<open>
  The answers to messages that are no step requests replace at most the cells: the
  worker reaches the messages behind them with the flag as it was.
\<close>

lemma fire_other_result:
  assumes "posted s = m # ms" "answered L m" "\<not> isStepRequest m"
  shows "\<exists>c. fire L s WorkerDone = s\<lparr>gridState := (gridState s)\<lparr>cells := c\<rparr>, posted := ms\<rparr>"
proof (cases m)
  case (SIMULATION_STEP cs w h r)
  then show ?thesis using assms(3) by simp
next
  case (INIT_GRID w h ip)
  then obtain c where "worker_listener L m = Inr (GRID_INITIALIZED c)"
    using assms(2) by (auto simp: answered_def worker_listener_def split: sum.splits)
  then have "fire L s WorkerDone = s\<lparr>gridState := (gridState s)\<lparr>cells := c\<rparr>, posted := ms\<rparr>"
    using assms(1) by (simp add: onmessage_def)
  then show ?thesis by blast
next
  case (UPDATE_RULE r)
  then have "fire L s WorkerDone =
      s\<lparr>gridState := (gridState s)\<lparr>cells := cells (gridState s)\<rparr>, posted := ms\<rparr>"
    using assms(1) by (simp add: worker_listener_def onmessage_def)
  then show ?thesis by blast
qed

lemma drain:
  assumes "list_all (answered L) ms" "filter isStepRequest ms = []" "posted s = ms @ rest"
  shows "\<exists>c. run L s (replicate (length ms) WorkerDone) =
           s\<lparr>gridState := (gridState s)\<lparr>cells := c\<rparr>, posted := rest\<rparr>"
  using assms
proof (induction ms arbitrary: s)
  case Nil
  then have "run L s (replicate (length []) WorkerDone) =
      s\<lparr>gridState := (gridState s)\<lparr>cells := cells (gridState s)\<rparr>, posted := rest\<rparr>"
    by (simp add: run_def)
  then show ?case by blast
next
  case (Cons m ms)
  have m: "answered L m" "\<not> isStepRequest m"
    using Cons.prems(1,2) by (auto split: if_splits)
  have rest_ok: "list_all (answered L) ms" "filter isStepRequest ms = []"
    using Cons.prems(1,2) by (auto split: if_splits)
  obtain c1 where c1: "fire L s WorkerDone =
      s\<lparr>gridState := (gridState s)\<lparr>cells := c1\<rparr>, posted := ms @ rest\<rparr>"
    using fire_other_result [of s m "ms @ rest" L] Cons.prems(3) m by auto
  define s1 where "s1 = s\<lparr>gridState := (gridState s)\<lparr>cells := c1\<rparr>, posted := ms @ rest\<rparr>"
  have "posted s1 = ms @ rest" by (simp add: s1_def)
  then obtain c where c: "run L s1 (replicate (length ms) WorkerDone) =
      s1\<lparr>gridState := (gridState s1)\<lparr>cells := c\<rparr>, posted := rest\<rparr>"
    using Cons.IH [OF rest_ok] by blast
  have "run L s (replicate (length (m # ms)) WorkerDone) =
      run L (fire L s WorkerDone) (replicate (length ms) WorkerDone)"
    by (simp add: run_def)
  also have "\<dots> = s1\<lparr>gridState := (gridState s1)\<lparr>cells := c\<rparr>, posted := rest\<rparr>"
    using c c1 by (simp add: s1_def)
  also have "\<dots> = s\<lparr>gridState := (gridState s)\<lparr>cells := c\<rparr>, posted := rest\<rparr>"
    by (simp add: s1_def)
  finally show ?case by blast
qed

lemma idle_queue:
  assumes "protocol_inv L s" "\<not> isProcessingRef s"
  shows "list_all (answered L) (posted s) \<and> filter isStepRequest (posted s) = []"
  using assms by (simp add: protocol_inv_def outstanding_def)

lemma step_then_reset:
  assumes "protocol_inv L s" "workerRef s" "\<not> isProcessingRef s"
  shows "\<exists>c. run L s ([Step True cs cfg, Reset True] @ replicate (length (posted s)) WorkerDone) =
     s\<lparr>gridState := (gridState s)\<lparr>cells := c\<rparr>, isProcessingRef := True,
       posted := [SIMULATION_STEP cs (width (gridState s)) (height (gridState s)) (rule cfg),
                  INIT_GRID (width (gridState s)) (height (gridState s)) None]\<rparr>"
proof -
  define s2 where "s2 = run L s [Step True cs cfg, Reset True]"
  have s2: "s2 = s\<lparr>isProcessingRef := True,
      posted := posted s @ [SIMULATION_STEP cs (width (gridState s)) (height (gridState s)) (rule cfg),
                            INIT_GRID (width (gridState s)) (height (gridState s)) None]\<rparr>"
    using assms(2,3) by (simp add: s2_def run_def step_def reset_def stepMessage_def captured_def)
  then have p2: "posted s2 = posted s @
      [SIMULATION_STEP cs (width (gridState s)) (height (gridState s)) (rule cfg),
       INIT_GRID (width (gridState s)) (height (gridState s)) None]"
    by simp
  obtain c where "run L s2 (replicate (length (posted s)) WorkerDone) =
      s2\<lparr>gridState := (gridState s2)\<lparr>cells := c\<rparr>,
         posted := [SIMULATION_STEP cs (width (gridState s)) (height (gridState s)) (rule cfg),
                    INIT_GRID (width (gridState s)) (height (gridState s)) None]\<rparr>"
    using drain [OF _ _ p2] idle_queue [OF assms(1,3)] by blast
  then have "run L s ([Step True cs cfg, Reset True] @ replicate (length (posted s)) WorkerDone) =
     s\<lparr>gridState := (gridState s)\<lparr>cells := c\<rparr>, isProcessingRef := True,
       posted := [SIMULATION_STEP cs (width (gridState s)) (height (gridState s)) (rule cfg),
                  INIT_GRID (width (gridState s)) (height (gridState s)) None]\<rparr>"
    unfolding run_append s2_def [symmetric] by (simp add: s2)
  then show ?thesis by blast
qed

lemma reset_then_step:
  assumes "protocol_inv L s" "workerRef s" "\<not> isProcessingRef s"
  shows "\<exists>c. run L s ([Reset True, Step True cs cfg] @ replicate (length (posted s)) WorkerDone) =
     s\<lparr>gridState := (gridState s)\<lparr>cells := c\<rparr>, isProcessingRef := True,
       posted := [INIT_GRID (width (gridState s)) (height (gridState s)) None,
                  SIMULATION_STEP cs (width (gridState s)) (height (gridState s)) (rule cfg)]\<rparr>"
proof -
  define s2 where "s2 = run L s [Reset True, Step True cs cfg]"
  have s2: "s2 = s\<lparr>isProcessingRef := True,
      posted := posted s @ [INIT_GRID (width (gridState s)) (height (gridState s)) None,
                            SIMULATION_STEP cs (width (gridState s)) (height (gridState s)) (rule cfg)]\<rparr>"
    using assms(2,3) by (simp add: s2_def run_def step_def reset_def stepMessage_def captured_def)
  then have p2: "posted s2 = posted s @
      [INIT_GRID (width (gridState s)) (height (gridState s)) None,
       SIMULATION_STEP cs (width (gridState s)) (height (gridState s)) (rule cfg)]"
    by simp
  obtain c where "run L s2 (replicate (length (posted s)) WorkerDone) =
      s2\<lparr>gridState := (gridState s2)\<lparr>cells := c\<rparr>,
         posted := [INIT_GRID (width (gridState s)) (height (gridState s)) None,
                    SIMULATION_STEP cs (width (gridState s)) (height (gridState s)) (rule cfg)]\<rparr>"
    using drain [OF _ _ p2] idle_queue [OF assms(1,3)] by blast
  then have "run L s ([Reset True, Step True cs cfg] @ replicate (length (posted s)) WorkerDone) =
     s\<lparr>gridState := (gridState s)\<lparr>cells := c\<rparr>, isProcessingRef := True,
       posted := [INIT_GRID (width (gridState s)) (height (gridState s)) None,
                  SIMULATION_STEP cs (width (gridState s)) (height (gridState s)) (rule cfg)]\<rparr>"
    unfolding run_append s2_def [symmetric] by (simp add: s2)
  then show ?thesis by blast
qed

lemma replicate_one_more: "replicate (n + 1) x = replicate n x @ [x]"
  by (simp add: replicate_append_same)

lemma replicate_two_more: "replicate (n + 2) x = replicate n x @ [x, x]"
proof -
  have "replicate (n + 2) x = replicate n x @ replicate 2 x"
    by (rule replicate_add)
  moreover have "replicate 2 x = [x, x]"
    by (simp add: numeral_2_eq_2)
  ultimately show ?thesis by simp
qed

lemma first_grid:
  "createInitialGrid 4294967295 5 5 (Some [(10, 10), (11, 10), (12, 10), (12, 11), (11, 12)]) =
     Inr [1, 1, 1, 0, 0, 0, 0, 1, 0, 0, 0, 1, 0, 0, 0, 0, 0, 0, 0, 0, 0, 0, 0, 0, 0]"
proof -
  have "fold (\<lambda>pos cs. write_cell cs
              (cell_index (js_rem (snd pos + 5) 5) 5 (js_rem (fst pos + 5) 5)) 1)
            (positions (Some [(10, 10), (11, 10), (12, 10), (12, 11), (11, 12)]))
            (replicate (nat (5 * 5)) 0) =
        [1, 1, 1, 0, 0, 0, 0, 1, 0, 0, 0, 1, 0, 0, 0, 0, 0, 0, 0, 0, 0, 0, 0, 0, 0]"
    by code_simp
  then show ?thesis
    unfolding createInitialGrid_fold by simp
qed

lemma first_step:
  "simulationStep [1, 1, 1, 0, 0, 0, 0, 1, 0, 0, 0, 1, 0, 0, 0, 0, 0, 0, 0, 0, 0, 0, 0, 0, 0] 5 5
     \<lparr>birth = [3], survival = [2, 3]\<rparr> =
   [0, 1, 1, 0, 0, 1, 0, 1, 0, 0, 0, 0, 0, 0, 0, 0, 0, 0, 0, 0, 0, 1, 0, 0, 0]"
  by code_simp

text \<open>
  The messages carry no sequence number and the hook discards no answer. On a 5 by 5
  grid: after the first grid has arrived, a step is requested by the callback of the
  current render and then \<open>reset\<close> is called; the step result that arrives next
  replaces the cells.
\<close>

theorem stale_result_overwrites:
  "cells (gridState (run 4294967295 (mounted 4294967295 5 True)
     [WorkerDone,
      Step True [1, 1, 1, 0, 0, 0, 0, 1, 0, 0, 0, 1, 0, 0, 0, 0, 0, 0, 0, 0, 0, 0, 0, 0, 0]
        DEFAULT_CONFIG,
      Reset True])) =
     [1, 1, 1, 0, 0, 0, 0, 1, 0, 0, 0, 1, 0, 0, 0, 0, 0, 0, 0, 0, 0, 0, 0, 0, 0] \<and>
   cells (gridState (run 4294967295 (mounted 4294967295 5 True)
     [WorkerDone,
      Step True [1, 1, 1, 0, 0, 0, 0, 1, 0, 0, 0, 1, 0, 0, 0, 0, 0, 0, 0, 0, 0, 0, 0, 0, 0]
        DEFAULT_CONFIG,
      Reset True,
      WorkerDone])) =
     [0, 1, 1, 0, 0, 1, 0, 1, 0, 0, 0, 0, 0, 0, 0, 0, 0, 0, 0, 0, 0, 1, 0, 0, 0]"
  by (simp add: run_def mounted_def new_Uint8Array_def worker_listener_def first_grid
      onmessage_def step_def reset_def stepMessage_def captured_def DEFAULT_CONFIG_def first_step)

text \<open>
  Claim C4, as the code has it. Every \<open>SIMULATION_RESULT\<close> replaces the cells and
  clears the in-flight flag; nothing is compared with what has been posted since. The
  worker answers in the order of posting. From a state in which the protocol invariant
  holds, as it does in every state reached from mounting, with a worker and no step in
  flight, after \<open>step\<close> and then \<open>reset\<close>, once the messages posted before
  them and the step request have been answered, the cells are the step of the cells
  that the request carried; the next answer is the initial grid, and at that moment
  the grid is the all-dead grid with nothing posted and nothing in flight. The reset
  grid is not protected: after \<open>reset\<close> and then \<open>step\<close>, the request carries the
  cells that the callback had captured before the reset, its result arrives after the
  initial grid, and when everything has been answered the cells are the step of those
  cells.
\<close>

theorem results_in_posting_order:
  assumes "protocol_inv L s" "workerRef s" "\<not> isProcessingRef s"
  shows "cells (gridState (onmessage (SIMULATION_RESULT newState) t)) = newState \<and>
         \<not> isProcessingRef (onmessage (SIMULATION_RESULT newState) t) \<and>
         cells (gridState (run L s ([Step True cs cfg, Reset True] @
             replicate (length (posted s) + 1) WorkerDone))) =
           simulationStep cs (width (gridState s)) (height (gridState s)) (rule cfg) \<and>
         cells (gridState (run L s ([Step True cs cfg, Reset True] @
             replicate (length (posted s) + 2) WorkerDone))) =
           replicate (nat (width (gridState s) * height (gridState s))) 0 \<and>
         posted (run L s ([Step True cs cfg, Reset True] @
             replicate (length (posted s) + 2) WorkerDone)) = [] \<and>
         \<not> isProcessingRef (run L s ([Step True cs cfg, Reset True] @
             replicate (length (posted s) + 2) WorkerDone)) \<and>
         cells (gridState (run L s ([Reset True, Step True cs cfg] @
             replicate (length (posted s) + 2) WorkerDone))) =
           simulationStep cs (width (gridState s)) (height (gridState s)) (rule cfg) \<and>
         posted (run L s ([Reset True, Step True cs cfg] @
             replicate (length (posted s) + 2) WorkerDone)) = [] \<and>
         \<not> isProcessingRef (run L s ([Reset True, Step True cs cfg] @
             replicate (length (posted s) + 2) WorkerDone))"
proof -
  let ?w = "width (gridState s)" and ?h = "height (gridState s)"
  let ?stepm = "SIMULATION_STEP cs ?w ?h (rule cfg)"
  let ?initm = "INIT_GRID ?w ?h None"
  have alloc: "0 \<le> ?w * ?h" "?w * ?h \<le> int L"
    using assms(1,2) by (simp_all add: protocol_inv_def allocated_def)
  have result: "cells (gridState (onmessage (SIMULATION_RESULT newState) t)) = newState \<and>
         \<not> isProcessingRef (onmessage (SIMULATION_RESULT newState) t)"
    by (simp add: onmessage_def)
  obtain c where a: "run L s ([Step True cs cfg, Reset True] @ replicate (length (posted s)) WorkerDone) =
     s\<lparr>gridState := (gridState s)\<lparr>cells := c\<rparr>, isProcessingRef := True,
       posted := [?stepm, ?initm]\<rparr>"
    using step_then_reset [OF assms] by blast
  define a0 where "a0 = s\<lparr>gridState := (gridState s)\<lparr>cells := c\<rparr>, isProcessingRef := True,
       posted := [?stepm, ?initm]\<rparr>"
  define a1 where "a1 = fire L a0 WorkerDone"
  define a2 where "a2 = fire L a1 WorkerDone"
  have a1: "a1 = a0\<lparr>gridState := (gridState a0)\<lparr>cells := simulationStep cs ?w ?h (rule cfg)\<rparr>,
       isProcessingRef := False, posted := [?initm]\<rparr>"
    unfolding a1_def by (rule fire_step_result) (simp add: a0_def)
  have a2: "a2 = a1\<lparr>gridState := (gridState a1)\<lparr>cells := replicate (nat (?w * ?h)) 0\<rparr>,
       posted := []\<rparr>"
    unfolding a2_def using alloc by (intro fire_init_result) (simp_all add: a1)
  have ra1: "run L s ([Step True cs cfg, Reset True] @ replicate (length (posted s) + 1) WorkerDone) = a1"
    unfolding replicate_one_more append_assoc [symmetric] run_append [of L s _ "[WorkerDone]"] a
    by (simp add: run_def a0_def a1_def)
  have ra2: "run L s ([Step True cs cfg, Reset True] @ replicate (length (posted s) + 2) WorkerDone) = a2"
    unfolding replicate_two_more append_assoc [symmetric]
      run_append [of L s _ "[WorkerDone, WorkerDone]"] a
    by (simp add: run_def a0_def a1_def a2_def)
  obtain d where b: "run L s ([Reset True, Step True cs cfg] @ replicate (length (posted s)) WorkerDone) =
     s\<lparr>gridState := (gridState s)\<lparr>cells := d\<rparr>, isProcessingRef := True,
       posted := [?initm, ?stepm]\<rparr>"
    using reset_then_step [OF assms] by blast
  define b0 where "b0 = s\<lparr>gridState := (gridState s)\<lparr>cells := d\<rparr>, isProcessingRef := True,
       posted := [?initm, ?stepm]\<rparr>"
  define b1 where "b1 = fire L b0 WorkerDone"
  define b2 where "b2 = fire L b1 WorkerDone"
  have b1: "b1 = b0\<lparr>gridState := (gridState b0)\<lparr>cells := replicate (nat (?w * ?h)) 0\<rparr>,
       posted := [?stepm]\<rparr>"
    unfolding b1_def using alloc by (intro fire_init_result) (simp_all add: b0_def)
  have b2: "b2 = b1\<lparr>gridState := (gridState b1)\<lparr>cells := simulationStep cs ?w ?h (rule cfg)\<rparr>,
       isProcessingRef := False, posted := []\<rparr>"
    unfolding b2_def by (rule fire_step_result) (simp add: b1)
  have rb2: "run L s ([Reset True, Step True cs cfg] @ replicate (length (posted s) + 2) WorkerDone) = b2"
    unfolding replicate_two_more append_assoc [symmetric]
      run_append [of L s _ "[WorkerDone, WorkerDone]"] b
    by (simp add: run_def b0_def b1_def b2_def)
  show ?thesis
    unfolding ra1 ra2 rb2 using result by (simp add: a1 a2 b1 b2 a0_def b0_def)
qed

theorem results_in_posting_order_witness:
  "cells (gridState (run 4294967295 (mounted 4294967295 5 True)
     [Step True [1, 1, 1, 0, 0, 0, 0, 1, 0, 0, 0, 1, 0, 0, 0, 0, 0, 0, 0, 0, 0, 0, 0, 0, 0]
        DEFAULT_CONFIG,
      Reset True, WorkerDone, WorkerDone])) =
     [0, 1, 1, 0, 0, 1, 0, 1, 0, 0, 0, 0, 0, 0, 0, 0, 0, 0, 0, 0, 0, 1, 0, 0, 0] \<and>
   cells (gridState (run 4294967295 (mounted 4294967295 5 True)
     [Step True [1, 1, 1, 0, 0, 0, 0, 1, 0, 0, 0, 1, 0, 0, 0, 0, 0, 0, 0, 0, 0, 0, 0, 0, 0]
        DEFAULT_CONFIG,
      Reset True, WorkerDone, WorkerDone, WorkerDone])) =
     [0, 0, 0, 0, 0, 0, 0, 0, 0, 0, 0, 0, 0, 0, 0, 0, 0, 0, 0, 0, 0, 0, 0, 0, 0] \<and>
   posted (run 4294967295 (mounted 4294967295 5 True)
     [Step True [1, 1, 1, 0, 0, 0, 0, 1, 0, 0, 0, 1, 0, 0, 0, 0, 0, 0, 0, 0, 0, 0, 0, 0, 0]
        DEFAULT_CONFIG,
      Reset True, WorkerDone, WorkerDone, WorkerDone]) = [] \<and>
   cells (gridState (run 4294967295 (mounted 4294967295 5 True)
     [Reset True,
      Step True [1, 1, 1, 0, 0, 0, 0, 1, 0, 0, 0, 1, 0, 0, 0, 0, 0, 0, 0, 0, 0, 0, 0, 0, 0]
        DEFAULT_CONFIG,
      WorkerDone, WorkerDone, WorkerDone])) =
     [0, 1, 1, 0, 0, 1, 0, 1, 0, 0, 0, 0, 0, 0, 0, 0, 0, 0, 0, 0, 0, 1, 0, 0, 0]"
proof -
  let ?s = "mounted 4294967295 5 True"
  let ?cs = "[1, 1, 1, 0, 0, 0, 0, 1, 0, 0, 0, 1, 0, 0, 0, 0, 0, 0, 0, 0, 0, 0, 0, 0, 0 :: byte]"
  have inv: "protocol_inv 4294967295 ?s"
    by (rule inv_mounted)
  have worker: "workerRef ?s" and idle: "\<not> isProcessingRef ?s"
    and queue: "length (posted ?s) = 1"
    and dims: "width (gridState ?s) = 5" "height (gridState ?s) = 5"
    by (simp_all add: mounted_def new_Uint8Array_def)
  have two: "replicate (length (posted ?s) + 1) WorkerDone = [WorkerDone, WorkerDone]"
    and three: "replicate (length (posted ?s) + 2) WorkerDone = [WorkerDone, WorkerDone, WorkerDone]"
    unfolding queue by (simp_all add: numeral_2_eq_2 numeral_3_eq_3)
  have dead: "replicate (nat (5 * 5)) (0::byte) =
      [0, 0, 0, 0, 0, 0, 0, 0, 0, 0, 0, 0, 0, 0, 0, 0, 0, 0, 0, 0, 0, 0, 0, 0, 0]"
    by code_simp
  have life: "rule DEFAULT_CONFIG = \<lparr>birth = [3], survival = [2, 3]\<rparr>"
    by (simp add: DEFAULT_CONFIG_def)
  note t = results_in_posting_order [OF inv worker idle, where cs = ?cs and cfg = DEFAULT_CONFIG,
      unfolded two three dims life first_step dead append.simps]
  show ?thesis
    using t by (intro conjI) simp_all
qed

end
